theory Spec2Isabelle
  imports Complex_Main "HOL-Library.AList"
begin

section \<open>The pet animation module: \<open>PetController\<close>\<close>

text \<open>
  JavaScript numbers are modelled as \<open>real\<close>: every claim below is about comparisons,
  sums and clamps, whose shape does not depend on rounding. \<open>Math.random()\<close> is a list
  of draws handed to the function that consumes them, the head first; a function that
  needs a draw and finds the list empty returns \<open>None\<close>, so the unbounded
  \<open>do ... while\<close> loop of \<open>pickNewTarget\<close> that never accepts a draw of the list is the
  value \<open>None\<close>. \<open>Date.now()\<close> is the argument \<open>now\<close>, and the handle that
  \<open>requestAnimationFrame\<close> returns is the argument \<open>fid\<close>.
\<close>

datatype SpriteFacing = FacingLeft | FacingRight

text \<open>
  The part of an \<open>HTMLElement\<close> that the two modules read and write. Layout follows the
  inline style: \<open>offsetLeft\<close> reads what \<open>style.left\<close> was set to and \<open>offsetWidth\<close>
  what \<open>style.width\<close> was set to; \<open>offsetWidth = 0\<close> is an element without layout.
\<close>

record element =
  dataPetId :: string
  offsetLeft :: real
  offsetWidth :: real
  offsetHeight :: real
  classWalking :: bool
  classFacingRight :: bool
  classFacingLeft :: bool
  styleCursor :: string
  attached :: bool

text \<open>
  An element removed from the document (\<open>attached = False\<close>) keeps its record; the
  model does not recompute its layout.
\<close>

text \<open>\<open>PetState\<close>: a descriptor of the snapshot feed; \<open>defaultFacing\<close> is optional.\<close>

record PetState =
  odangoId :: string
  psScale :: real
  psSpritePath :: string
  psStage :: string
  psDefaultFacing :: "SpriteFacing option"

text \<open>
  The fields of the class. The field \<open>x\<close> is \<open>posX\<close> here; \<open>element\<close> is a reference
  into the store of elements, and the methods below take the element it refers to beside
  the controller and return both.
\<close>

record PetController =
  elementRef :: nat
  containerWidth :: real
  posX :: real
  direction :: int
  baseSpeed :: real
  scale :: real
  animationFrameId :: "nat option"
  isPaused :: bool
  isMovementEnabled :: bool
  petId :: string
  spritePath :: string
  stage :: string
  defaultFacing :: SpriteFacing
  targetX :: real
  isResting :: bool
  restEndTime :: real
  speedMultiplier :: real

definition SPEED_MIN :: real where "SPEED_MIN = 3 / 10"
definition SPEED_MAX :: real where "SPEED_MAX = 2"
definition SPEED_DEFAULT :: real where "SPEED_DEFAULT = 1"
definition BASE_PET_SIZE :: real where "BASE_PET_SIZE = 64"
definition BASE_DISPLAY_MULTIPLIER :: real where "BASE_DISPLAY_MULTIPLIER = 3 / 2"

text \<open>\<open>this.element.offsetWidth || 64\<close>: zero is the only falsy width.\<close>

definition petWidthOf :: "element \<Rightarrow> real" where
  "petWidthOf e = (if offsetWidth e = 0 then 64 else offsetWidth e)"

text \<open>\<open>updateDirection\<close>: the class \<open>facing-right\<close> is the flipped rendering.\<close>

definition needsFlip :: "PetController \<Rightarrow> bool" where
  "needsFlip c \<longleftrightarrow>
     (defaultFacing c = FacingLeft \<and> direction c = 1) \<or>
     (defaultFacing c = FacingRight \<and> direction c = - 1)"

definition updateDirection :: "PetController \<times> element \<Rightarrow> PetController \<times> element" where
  "updateDirection ce =
     (case ce of (c, e) \<Rightarrow>
        if needsFlip c
        then (c, e\<lparr>classFacingRight := True, classFacingLeft := False\<rparr>)
        else (c, e\<lparr>classFacingLeft := True, classFacingRight := False\<rparr>))"

text \<open>The \<open>do ... while\<close> loop of \<open>pickNewTarget\<close>, one draw per round.\<close>

fun pickLoop :: "real \<Rightarrow> real \<Rightarrow> real \<Rightarrow> real list \<Rightarrow> (real \<times> real list) option" where
  "pickLoop minX maxX cur [] = None"
| "pickLoop minX maxX cur (r # rs) =
     (let newTarget = minX + r * (maxX - minX) in
      if \<bar>newTarget - cur\<bar> < 50 \<and> maxX - minX > 100
      then pickLoop minX maxX cur rs
      else Some (newTarget, rs))"

definition pickMinX :: real where "pickMinX = 20"

definition pickMaxX :: "PetController \<Rightarrow> element \<Rightarrow> real" where
  "pickMaxX c e = containerWidth c - petWidthOf e - 20"

definition pickNewTarget ::
  "real list \<Rightarrow> PetController \<times> element \<Rightarrow> ((PetController \<times> element) \<times> real list) option" where
  "pickNewTarget rs ce =
     (case ce of (c, e) \<Rightarrow>
        (case pickLoop pickMinX (pickMaxX c e) (posX c) rs of
           None \<Rightarrow> None
         | Some (newTarget, rs') \<Rightarrow>
             Some (updateDirection
                     (c\<lparr>targetX := newTarget,
                        direction := (if newTarget > posX c then 1 else - 1)\<rparr>, e),
                   rs')))"

text \<open>\<open>startResting\<close>: one draw for the rest duration, 2000 to 8000 ms.\<close>

definition startResting ::
  "real \<Rightarrow> real list \<Rightarrow> PetController \<times> element \<Rightarrow> ((PetController \<times> element) \<times> real list) option" where
  "startResting now rs ce =
     (case ce of (c, e) \<Rightarrow>
        (case rs of
           [] \<Rightarrow> None
         | r # rs' \<Rightarrow>
             Some ((c\<lparr>isResting := True, restEndTime := now + (2000 + r * 6000)\<rparr>,
                    e\<lparr>classWalking := False\<rparr>), rs')))"

definition isEgg :: "PetController \<Rightarrow> bool" where
  "isEgg c \<longleftrightarrow> stage c = ''egg''"

definition updateScale :: "real \<Rightarrow> PetController \<times> element \<Rightarrow> PetController \<times> element" where
  "updateScale gsf ce =
     (case ce of (c, e) \<Rightarrow>
        (let effectiveScale = scale c * BASE_DISPLAY_MULTIPLIER * gsf;
             size = real_of_int (round (BASE_PET_SIZE * effectiveScale))
         in (c, e\<lparr>offsetWidth := size, offsetHeight := size\<rparr>)))"

definition updatePosition :: "PetController \<times> element \<Rightarrow> PetController \<times> element" where
  "updatePosition ce = (case ce of (c, e) \<Rightarrow> (c, e\<lparr>offsetLeft := posX c\<rparr>))"

text \<open>
  \<open>updateState\<close>; \<open>updateSprite\<close> only starts the asynchronous load of the image and
  sets the placeholder fill, which no field of the model records.
\<close>

definition updateState :: "real \<Rightarrow> PetState \<Rightarrow> PetController \<times> element \<Rightarrow> PetController \<times> element" where
  "updateState gsf st ce =
     (case ce of (c, e) \<Rightarrow>
        updateDirection
          (updateScale gsf
             (c\<lparr>petId := odangoId st,
                scale := psScale st,
                spritePath := psSpritePath st,
                stage := psStage st,
                defaultFacing := (case psDefaultFacing st of None \<Rightarrow> FacingLeft | Some f \<Rightarrow> f)\<rparr>,
              e)))"

definition setSpeed :: "real \<Rightarrow> PetController \<Rightarrow> PetController" where
  "setSpeed speed c = c\<lparr>baseSpeed := max SPEED_MIN (min SPEED_MAX speed)\<rparr>"

definition setMovementEnabled :: "bool \<Rightarrow> PetController \<times> element \<Rightarrow> PetController \<times> element" where
  "setMovementEnabled enabled ce =
     (case ce of (c, e) \<Rightarrow>
        (let c' = c\<lparr>isMovementEnabled := enabled\<rparr> in
         if \<not> enabled then (c', e\<lparr>classWalking := False\<rparr>)
         else if \<not> isPaused c' \<and> animationFrameId c' \<noteq> None then (c', e\<lparr>classWalking := True\<rparr>)
         else (c', e)))"

text \<open>The margin and the upper bound of the boundary check of \<open>animate\<close>.\<close>

definition tickMargin :: real where "tickMargin = 10"

definition tickMaxX :: "PetController \<Rightarrow> element \<Rightarrow> real" where
  "tickMaxX c e = containerWidth c - petWidthOf e - tickMargin"

definition restThenPick ::
  "real \<Rightarrow> real list \<Rightarrow> PetController \<times> element \<Rightarrow> ((PetController \<times> element) \<times> real list) option" where
  "restThenPick now rs ce =
     (case startResting now rs ce of
        None \<Rightarrow> None
      | Some (ce1, rs1) \<Rightarrow> pickNewTarget rs1 ce1)"

text \<open>The two checks of the moving branch, on the controller already moved.\<close>

definition boundaryCheck ::
  "real \<Rightarrow> real list \<Rightarrow> PetController \<times> element \<Rightarrow> ((PetController \<times> element) \<times> real list) option" where
  "boundaryCheck now rs ce =
     (case ce of (c1, e) \<Rightarrow>
        (let petWidth = petWidthOf e;
             margin = tickMargin
         in if posX c1 \<le> margin then restThenPick now rs (c1\<lparr>posX := margin\<rparr>, e)
            else if posX c1 \<ge> containerWidth c1 - petWidth - margin
            then restThenPick now rs (c1\<lparr>posX := containerWidth c1 - petWidth - margin\<rparr>, e)
            else Some ((c1, e), rs)))"

definition arrivalCheck ::
  "real \<Rightarrow> real \<Rightarrow> real list \<Rightarrow> PetController \<times> element \<Rightarrow> ((PetController \<times> element) \<times> real list) option" where
  "arrivalCheck now effectiveSpeed rs ce =
     (case ce of (c2, e2) \<Rightarrow>
        (let distanceToTarget = \<bar>posX c2 - targetX c2\<bar>
         in if distanceToTarget < effectiveSpeed * 2 then startResting now rs (c2, e2)
            else Some ((c2, e2), rs)))"

definition moveStep ::
  "real \<Rightarrow> real list \<Rightarrow> PetController \<times> element \<Rightarrow> ((PetController \<times> element) \<times> real list) option" where
  "moveStep now rs ce =
     (case ce of (c, e) \<Rightarrow>
        (let effectiveSpeed = baseSpeed c * speedMultiplier c;
             c1 = c\<lparr>posX := posX c + effectiveSpeed * real_of_int (direction c)\<rparr>
         in (case boundaryCheck now rs (c1, e) of
               None \<Rightarrow> None
             | Some (ce2, rs2) \<Rightarrow>
                 (case arrivalCheck now effectiveSpeed rs2 ce2 of
                    None \<Rightarrow> None
                  | Some (ce3, rs3) \<Rightarrow> Some (updatePosition ce3, rs3)))))"

text \<open>\<open>animate\<close>: one run of the frame callback.\<close>

definition animate ::
  "real \<Rightarrow> nat \<Rightarrow> real list \<Rightarrow> PetController \<times> element \<Rightarrow> ((PetController \<times> element) \<times> real list) option" where
  "animate now fid rs ce =
     (case ce of (c, e) \<Rightarrow>
        if isEgg c then Some ((c\<lparr>animationFrameId := Some fid\<rparr>, e), rs)
        else
          (let stepped =
                 (if \<not> isPaused c \<and> isMovementEnabled c then
                    (if isResting c then
                       (if now \<ge> restEndTime c then
                          (case pickNewTarget rs (c\<lparr>isResting := False\<rparr>, e) of
                             None \<Rightarrow> None
                           | Some ((c1, e1), rs1) \<Rightarrow> Some ((c1, e1\<lparr>classWalking := True\<rparr>), rs1))
                        else Some ((c, e), rs))
                     else moveStep now rs (c, e))
                  else Some ((c, e), rs))
           in (case stepped of
                 None \<Rightarrow> None
               | Some ((c', e'), rs') \<Rightarrow> Some ((c'\<lparr>animationFrameId := Some fid\<rparr>, e'), rs'))))"

text \<open>Any number of ticks: the frame callback run once per entry of \<open>frames\<close>.\<close>

fun ticks ::
  "(real \<times> nat) list \<Rightarrow> real list \<Rightarrow> PetController \<times> element \<Rightarrow> ((PetController \<times> element) \<times> real list) option" where
  "ticks [] rs ce = Some (ce, rs)"
| "ticks ((now, fid) # frames) rs ce =
     (case animate now fid rs ce of
        None \<Rightarrow> None
      | Some (ce', rs') \<Rightarrow> ticks frames rs' ce')"

text \<open>The interval of the tick clamp.\<close>

definition inTickRange :: "PetController \<times> element \<Rightarrow> bool" where
  "inTickRange ce = (case ce of (c, e) \<Rightarrow> tickMargin \<le> posX c \<and> posX c \<le> tickMaxX c e)"


text \<open>
  The constructor. The draws are taken in the order of the source: the initial position
  (only when \<open>initialX\<close> is absent), the direction, the speed multiplier, then those of
  \<open>pickNewTarget\<close>. The other fields start at the defaults of their declarations.
\<close>

definition fieldDefaults :: "nat \<Rightarrow> real \<Rightarrow> PetController" where
  "fieldDefaults ref cw =
     \<lparr>elementRef = ref, containerWidth = cw, posX = 0, direction = 1,
      baseSpeed = SPEED_DEFAULT, scale = 1, animationFrameId = None, isPaused = False,
      isMovementEnabled = True, petId = [], spritePath = [], stage = ''egg'',
      defaultFacing = FacingLeft, targetX = 0, isResting = False, restEndTime = 0,
      speedMultiplier = 1\<rparr>"

definition constructFrom ::
  "nat \<Rightarrow> real \<Rightarrow> real \<Rightarrow> real list \<Rightarrow> element \<Rightarrow> ((PetController \<times> element) \<times> real list) option" where
  "constructFrom ref cw x0 rs e =
     (case rs of
        r1 # r2 # rs2 \<Rightarrow>
          (case pickNewTarget rs2
                  ((fieldDefaults ref cw)
                     \<lparr>posX := x0,
                      direction := (if r1 > 1 / 2 then 1 else - 1),
                      speedMultiplier := 8 / 10 + r2 * (4 / 10)\<rparr>, e) of
             None \<Rightarrow> None
           | Some (ce, rs3) \<Rightarrow> Some (updateDirection (updatePosition ce), rs3))
      | _ \<Rightarrow> None)"

definition newPetController ::
  "nat \<Rightarrow> real \<Rightarrow> real option \<Rightarrow> real list \<Rightarrow> element \<Rightarrow> ((PetController \<times> element) \<times> real list) option" where
  "newPetController ref cw initialX rs e =
     (case initialX of
        Some x0 \<Rightarrow> constructFrom ref cw x0 rs e
      | None \<Rightarrow>
          (case rs of
             [] \<Rightarrow> None
           | r # rs' \<Rightarrow> constructFrom ref cw (r * (cw - 100) + 50) rs' e))"

definition start ::
  "real \<Rightarrow> nat \<Rightarrow> real list \<Rightarrow> PetController \<times> element \<Rightarrow> ((PetController \<times> element) \<times> real list) option" where
  "start now fid rs ce =
     (case ce of (c, e) \<Rightarrow>
        if animationFrameId c \<noteq> None then Some ((c, e), rs)
        else animate now fid rs (c, e\<lparr>classWalking := True\<rparr>))"

definition stop :: "PetController \<times> element \<Rightarrow> PetController \<times> element" where
  "stop ce =
     (case ce of (c, e) \<Rightarrow>
        ((if animationFrameId c \<noteq> None then c\<lparr>animationFrameId := None\<rparr> else c),
         e\<lparr>classWalking := False\<rparr>))"

definition togglePause :: "PetController \<times> element \<Rightarrow> PetController \<times> element" where
  "togglePause ce =
     (case ce of (c, e) \<Rightarrow>
        (let c' = c\<lparr>isPaused := \<not> isPaused c\<rparr> in
         if isPaused c' then (c', e\<lparr>classWalking := False\<rparr>)
         else (c', e\<lparr>classWalking := True\<rparr>)))"

definition clampPositionToContainer ::
  "real list \<Rightarrow> PetController \<times> element \<Rightarrow> ((PetController \<times> element) \<times> real list) option" where
  "clampPositionToContainer rs ce =
     (case ce of (c, e) \<Rightarrow>
        (let petWidth = petWidthOf e;
             margin = 10;
             maxX = containerWidth c - petWidth - margin
         in if posX c > maxX then
              (let ce1 = updatePosition (c\<lparr>posX := max margin maxX\<rparr>, e) in
               if \<not> isResting (fst ce1) \<and> \<not> isEgg (fst ce1) then pickNewTarget rs ce1
               else Some (ce1, rs))
            else Some ((c, e), rs)))"

definition setContainerWidth ::
  "real \<Rightarrow> real list \<Rightarrow> PetController \<times> element \<Rightarrow> ((PetController \<times> element) \<times> real list) option" where
  "setContainerWidth width rs ce =
     (case ce of (c, e) \<Rightarrow> clampPositionToContainer rs (c\<lparr>containerWidth := width\<rparr>, e))"

definition syncPosition ::
  "real list \<Rightarrow> PetController \<times> element \<Rightarrow> ((PetController \<times> element) \<times> real list) option" where
  "syncPosition rs ce =
     (case ce of (c, e) \<Rightarrow>
        (let c1 = c\<lparr>posX := offsetLeft e\<rparr> in
         if \<not> isEgg c1 \<and> \<not> isResting c1 then pickNewTarget rs (c1, e)
         else Some ((c1, e), rs)))"

definition setPosition :: "real \<Rightarrow> PetController \<times> element \<Rightarrow> PetController \<times> element" where
  "setPosition x ce = (case ce of (c, e) \<Rightarrow> updatePosition (c\<lparr>posX := x\<rparr>, e))"

section \<open>The pet animation module: \<open>MultiPetManager\<close>\<close>

text \<open>
  The page holds what the manager shares with the rest of the application: the store of
  elements that references point into, the next free reference, the next handle of
  \<open>requestAnimationFrame\<close>, the module variable \<open>globalScreenScaleFactor\<close>, and the width
  the stylesheet gives a new \<open>.pet\<close> element before \<open>updateScale\<close> sets one.
\<close>

record page =
  heap :: "nat \<Rightarrow> element"
  nextRef :: nat
  nextFrame :: nat
  globalScreenScaleFactor :: real
  cssPetWidth :: real

record PetDisplaySettings =
  movementEnabled :: bool
  movementSpeed :: real

text \<open>
  \<open>controllers\<close> is a JavaScript \<open>Map\<close>: an association list in insertion order, updated in
  place for a key it has. The click callback is left out: no operation below calls it.
\<close>

record MultiPetManager =
  mgrContainerWidth :: real
  controllers :: "(string \<times> PetController) list"
  petSettingsGetter :: "(string \<Rightarrow> PetDisplaySettings) option"

definition createPetElement :: "string \<Rightarrow> page \<Rightarrow> element" where
  "createPetElement pid p =
     \<lparr>dataPetId = pid, offsetLeft = 0, offsetWidth = cssPetWidth p,
      offsetHeight = cssPetWidth p, classWalking = False, classFacingRight = False,
      classFacingLeft = False, styleCursor = [], attached = True\<rparr>"

text \<open>\<open>removePet\<close>, with \<open>destroy\<close> inlined: \<open>stop\<close>, then the element leaves the document.\<close>

definition removePet :: "string \<Rightarrow> MultiPetManager \<times> page \<Rightarrow> MultiPetManager \<times> page" where
  "removePet pid mp =
     (case mp of (m, p) \<Rightarrow>
        (case map_of (controllers m) pid of
           None \<Rightarrow> (m, p)
         | Some c \<Rightarrow>
             (let (c', e') = stop (c, heap p (elementRef c)) in
              (m\<lparr>controllers := AList.delete pid (controllers m)\<rparr>,
               p\<lparr>heap := (heap p)(elementRef c := e'\<lparr>attached := False\<rparr>)\<rparr>))))"

definition applySettings ::
  "(string \<Rightarrow> PetDisplaySettings) option \<Rightarrow> string \<Rightarrow> PetController \<times> element \<Rightarrow> PetController \<times> element" where
  "applySettings getter pid ce =
     (case getter of
        None \<Rightarrow> ce
      | Some g \<Rightarrow>
          (let settings = g pid;
               (c1, e1) = setMovementEnabled (movementEnabled settings) ce
           in (setSpeed (movementSpeed settings) c1, e1)))"

definition addPet ::
  "real \<Rightarrow> real list \<Rightarrow> PetState \<Rightarrow> MultiPetManager \<times> page \<Rightarrow> ((MultiPetManager \<times> page) \<times> real list) option" where
  "addPet now rs pet mp =
     (case mp of (m, p) \<Rightarrow>
        (let ref = nextRef p;
             e0 = createPetElement (odangoId pet) p
         in (case newPetController ref (mgrContainerWidth m) None rs e0 of
               None \<Rightarrow> None
             | Some (ce1, rs1) \<Rightarrow>
                 (let ce2 = updateState (globalScreenScaleFactor p) pet ce1;
                      ce3 = applySettings (petSettingsGetter m) (odangoId pet) ce2
                  in (case start now (nextFrame p) rs1 ce3 of
                        None \<Rightarrow> None
                      | Some ((c4, e4), rs2) \<Rightarrow>
                          Some ((m\<lparr>controllers := AList.update (odangoId pet) c4 (controllers m)\<rparr>,
                                 p\<lparr>heap := (heap p)(ref := e4),
                                   nextRef := Suc ref,
                                   nextFrame := Suc (nextFrame p)\<rparr>),
                                rs2))))))"

text \<open>The branch of \<open>updatePets\<close> for a pet the manager has: \<open>updateState\<close> on its controller.\<close>

definition refreshPet :: "PetState \<Rightarrow> MultiPetManager \<times> page \<Rightarrow> MultiPetManager \<times> page" where
  "refreshPet pet mp =
     (case mp of (m, p) \<Rightarrow>
        (case map_of (controllers m) (odangoId pet) of
           None \<Rightarrow> (m, p)
         | Some c \<Rightarrow>
             (let (c', e') = updateState (globalScreenScaleFactor p) pet (c, heap p (elementRef c)) in
              (m\<lparr>controllers := AList.update (odangoId pet) c' (controllers m)\<rparr>,
               p\<lparr>heap := (heap p)(elementRef c := e')\<rparr>))))"

fun removeAbsent :: "string list \<Rightarrow> string list \<Rightarrow> MultiPetManager \<times> page \<Rightarrow> MultiPetManager \<times> page" where
  "removeAbsent [] newIds mp = mp"
| "removeAbsent (pid # currentIds) newIds mp =
     removeAbsent currentIds newIds (if pid \<notin> set newIds then removePet pid mp else mp)"

fun addOrUpdate ::
  "real \<Rightarrow> PetState list \<Rightarrow> real list \<Rightarrow> MultiPetManager \<times> page \<Rightarrow> ((MultiPetManager \<times> page) \<times> real list) option" where
  "addOrUpdate now [] rs mp = Some (mp, rs)"
| "addOrUpdate now (pet # pets) rs mp =
     (case (if map_of (controllers (fst mp)) (odangoId pet) \<noteq> None
            then Some (refreshPet pet mp, rs)
            else addPet now rs pet mp) of
        None \<Rightarrow> None
      | Some (mp', rs') \<Rightarrow> addOrUpdate now pets rs' mp')"

definition updatePets ::
  "real \<Rightarrow> PetState list \<Rightarrow> real list \<Rightarrow> MultiPetManager \<times> page \<Rightarrow> ((MultiPetManager \<times> page) \<times> real list) option" where
  "updatePets now pets rs mp =
     (let currentIds = map fst (controllers (fst mp));
          newIds = map odangoId pets
      in addOrUpdate now pets rs (removeAbsent currentIds newIds mp))"

text \<open>What a snapshot sets on a controller.\<close>

definition snapshotAttributes :: "PetController \<Rightarrow> string \<times> real \<times> string \<times> string \<times> SpriteFacing" where
  "snapshotAttributes c = (petId c, scale c, spritePath c, stage c, defaultFacing c)"

definition registryIds :: "MultiPetManager \<Rightarrow> string set" where
  "registryIds m = fst ` set (controllers m)"

section \<open>The interaction module\<close>

text \<open>
  The module variables are the record \<open>interaction\<close>. The window of the application is
  \<open>appWindow\<close>, in logical units (the division by the monitor's scale factor in
  \<open>getCurrentWindowPosition\<close> is taken as done). A callback handed in at initialisation is
  a flag (present or \<open>null\<close>) and the list of the calls made to it. Each handler runs
  to its end before the next event: an \<open>await\<close> on the window resumes with nothing else
  run in between, and the calls on the window succeed.
\<close>

datatype ResizeDirection = ResizeLeft | ResizeRight

record interaction =
  isInteractionMode :: bool
  hotkeyPressedAt :: "real option"
  holdCheckTimer :: "nat option"
  borderOverlay :: "bool option"
  resizeHandles :: "(ResizeDirection \<times> bool) list"
  windowWidth :: real
  windowHeight :: real
  isDragging :: bool
  isResizing :: bool
  isDraggingPet :: bool
  resizeDirection :: "ResizeDirection option"
  dragStartX :: real
  dragStartY :: real
  windowStartX :: real
  windowStartY :: real
  windowStartWidth :: real
  draggingPetElement :: "nat option"
  petStartX :: real
  onWindowConfigChange :: bool
  onPetPositionChange :: bool

record appWindow =
  winX :: real
  winY :: real
  winWidth :: real
  winHeight :: real
  ignoreCursorEvents :: bool
  shown :: bool

text \<open>
  The whole application state an event handler can reach: the module variables, the page,
  the window, the pet manager, the pending timers of \<open>setTimeout\<close> (handle and due time,
  in the order they were set), whether the three mouse listeners are bound, the calls
  made to the two callbacks, and the modes that \<open>toggleInteractionMode\<close> logged.
\<close>

record world =
  im :: interaction
  pg :: page
  win :: appWindow
  mgr :: MultiPetManager
  timers :: "(nat \<times> real) list"
  nextTimerId :: nat
  listening :: bool
  petPositionCalls :: "(string \<times> real) list"
  windowConfigCalls :: "(real \<times> real \<times> real) list"
  modeLog :: "bool list"

definition HOLD_DURATION_MS :: real where "HOLD_DURATION_MS = 500"

definition setIgnoreCursorEvents :: "bool \<Rightarrow> world \<Rightarrow> world" where
  "setIgnoreCursorEvents ignore w = w\<lparr>win := (win w)\<lparr>ignoreCursorEvents := ignore\<rparr>\<rparr>"

definition setVisible :: "bool \<Rightarrow> world \<Rightarrow> world" where
  "setVisible v w =
     w\<lparr>im := (im w)\<lparr>borderOverlay := map_option (\<lambda>_. v) (borderOverlay (im w)),
                      resizeHandles := map (\<lambda>(d, _). (d, v)) (resizeHandles (im w))\<rparr>\<rparr>"

definition enterInteractionMode :: "world \<Rightarrow> world" where
  "enterInteractionMode w =
     (let w1 = w\<lparr>win := (win w)\<lparr>shown := True\<rparr>\<rparr>;
          w2 = setIgnoreCursorEvents False w1;
          w3 = setVisible True w2
      in w3\<lparr>listening := True\<rparr>)"

definition exitInteractionMode :: "world \<Rightarrow> world" where
  "exitInteractionMode w =
     (let w1 = setIgnoreCursorEvents True w;
          w2 = setVisible False w1;
          w3 = w2\<lparr>listening := False\<rparr>
      in w3\<lparr>im := (im w3)\<lparr>isDragging := False, isResizing := False,
                            isDraggingPet := False, draggingPetElement := None\<rparr>\<rparr>)"

definition toggleInteractionMode :: "world \<Rightarrow> world" where
  "toggleInteractionMode w =
     (let w1 = w\<lparr>im := (im w)\<lparr>isInteractionMode := \<not> isInteractionMode (im w)\<rparr>\<rparr>;
          w2 = w1\<lparr>modeLog := modeLog w1 @ [isInteractionMode (im w1)]\<rparr>
      in if isInteractionMode (im w2) then enterInteractionMode w2 else exitInteractionMode w2)"

text \<open>\<open>setTimeout\<close> returns a positive handle; \<open>if (holdCheckTimer)\<close> tests it for zero.\<close>

definition onHotkeyPressed :: "real \<Rightarrow> world \<Rightarrow> world" where
  "onHotkeyPressed now w =
     (if hotkeyPressedAt (im w) \<noteq> None then w
      else
        (let handle = Suc (nextTimerId w) in
         w\<lparr>im := (im w)\<lparr>hotkeyPressedAt := Some now, holdCheckTimer := Some handle\<rparr>,
           timers := timers w @ [(handle, now + HOLD_DURATION_MS)],
           nextTimerId := handle\<rparr>))"

definition clearTimeout :: "nat \<Rightarrow> world \<Rightarrow> world" where
  "clearTimeout handle w = w\<lparr>timers := filter (\<lambda>t. fst t \<noteq> handle) (timers w)\<rparr>"

definition onHotkeyReleased :: "world \<Rightarrow> world" where
  "onHotkeyReleased w =
     (let w1 =
            (case holdCheckTimer (im w) of
               None \<Rightarrow> w
             | Some handle \<Rightarrow>
                 if handle \<noteq> 0
                 then (let w' = clearTimeout handle w in w'\<lparr>im := (im w')\<lparr>holdCheckTimer := None\<rparr>\<rparr>)
                 else w)
      in w1\<lparr>im := (im w1)\<lparr>hotkeyPressedAt := None\<rparr>\<rparr>)"

text \<open>The callback of the hold timer.\<close>

definition holdTimerFired :: "world \<Rightarrow> world" where
  "holdTimerFired w = (if hotkeyPressedAt (im w) \<noteq> None then toggleInteractionMode w else w)"

text \<open>
  The event loop: before an event of time \<open>t\<close> is handled, every timer that is still
  pending and due by \<open>t\<close> fires, in the order the timers were set.
\<close>

fun fireDue :: "real \<Rightarrow> (nat \<times> real) list \<Rightarrow> world \<Rightarrow> world" where
  "fireDue t [] w = w"
| "fireDue t ((handle, due) # rest) w =
     (if due \<le> t \<and> handle \<in> fst ` set (timers w)
      then fireDue t rest (holdTimerFired (clearTimeout handle w))
      else fireDue t rest w)"

definition advance :: "real \<Rightarrow> world \<Rightarrow> world" where
  "advance t w = fireDue t (timers w) w"

datatype hotkeyEvent = Pressed | Released

definition handleHotkey :: "real \<Rightarrow> hotkeyEvent \<Rightarrow> world \<Rightarrow> world" where
  "handleHotkey now ev w = (case ev of Pressed \<Rightarrow> onHotkeyPressed now w | Released \<Rightarrow> onHotkeyReleased w)"

fun runHotkeys :: "(real \<times> hotkeyEvent) list \<Rightarrow> world \<Rightarrow> world" where
  "runHotkeys [] w = w"
| "runHotkeys ((t, ev) # evs) w = runHotkeys evs (handleHotkey t ev (advance t w))"

text \<open>The key is up and no hold timer is pending.\<close>

definition hotkeyIdle :: "world \<Rightarrow> bool" where
  "hotkeyIdle w \<longleftrightarrow> hotkeyPressedAt (im w) = None \<and> timers w = []"

text \<open>
  A mouse event, with what the handlers ask of its target: whether it is a resize handle
  (and its \<open>data-direction\<close>), and the closest \<open>.pet\<close> element if there is one.
\<close>

datatype mouseTarget = OnResizeHandle ResizeDirection | OnPet nat | Elsewhere

record mouseEvent =
  screenX :: real
  screenY :: real
  clientX :: real
  shiftKey :: bool
  target :: mouseTarget

definition setWindowPosition :: "real \<Rightarrow> real \<Rightarrow> world \<Rightarrow> world" where
  "setWindowPosition x y w = w\<lparr>win := (win w)\<lparr>winX := x, winY := y\<rparr>\<rparr>"

definition setWindowWidthAndPosition :: "real \<Rightarrow> real \<Rightarrow> real \<Rightarrow> world \<Rightarrow> world" where
  "setWindowWidthAndPosition width x y w =
     (let w1 = w\<lparr>im := (im w)\<lparr>windowWidth := width\<rparr>\<rparr>;
          w2 = setWindowPosition x y w1
      in w2\<lparr>win := (win w2)\<lparr>winWidth := width, winHeight := windowHeight (im w2)\<rparr>\<rparr>)"

definition onMouseDown :: "mouseEvent \<Rightarrow> world \<Rightarrow> world" where
  "onMouseDown ev w =
     (case target ev of
        OnResizeHandle d \<Rightarrow>
          w\<lparr>im := (im w)\<lparr>windowStartX := winX (win w), windowStartY := winY (win w),
                           isResizing := True, resizeDirection := Some d,
                           dragStartX := screenX ev, windowStartWidth := windowWidth (im w)\<rparr>\<rparr>
      | tgt \<Rightarrow>
          if shiftKey ev then
            w\<lparr>im := (im w)\<lparr>windowStartX := winX (win w), windowStartY := winY (win w),
                             isDragging := True, dragStartX := screenX ev,
                             dragStartY := screenY ev\<rparr>\<rparr>
          else
            (case tgt of
               OnPet r \<Rightarrow>
                 w\<lparr>im := (im w)\<lparr>isDraggingPet := True, draggingPetElement := Some r,
                                  dragStartX := clientX ev,
                                  petStartX := offsetLeft (heap (pg w) r)\<rparr>,
                   pg := (pg w)\<lparr>heap := (heap (pg w))(r := (heap (pg w) r)\<lparr>styleCursor := ''grabbing''\<rparr>)\<rparr>\<rparr>
             | _ \<Rightarrow> w))"

definition dragMargin :: real where "dragMargin = 10"

definition onMouseMove :: "mouseEvent \<Rightarrow> world \<Rightarrow> world" where
  "onMouseMove ev w =
     (if isDraggingPet (im w) \<and> draggingPetElement (im w) \<noteq> None then
        (case draggingPetElement (im w) of
           None \<Rightarrow> w
         | Some r \<Rightarrow>
             (let deltaX = clientX ev - dragStartX (im w);
                  newX = petStartX (im w) + deltaX;
                  petWidth = offsetWidth (heap (pg w) r);
                  margin = dragMargin;
                  newX' = max margin (min (windowWidth (im w) - petWidth - margin) newX)
              in w\<lparr>pg := (pg w)\<lparr>heap := (heap (pg w))(r := (heap (pg w) r)\<lparr>offsetLeft := newX'\<rparr>)\<rparr>\<rparr>))
      else if isDragging (im w) then
        (let deltaX = screenX ev - dragStartX (im w);
             deltaY = screenY ev - dragStartY (im w);
             newX = windowStartX (im w) + deltaX;
             newY = windowStartY (im w) + deltaY;
             clampedY = max 0 newY
         in setWindowPosition newX clampedY w)
      else if isResizing (im w) \<and> resizeDirection (im w) \<noteq> None then
        (let deltaX = screenX ev - dragStartX (im w);
             newWidth0 =
               (if resizeDirection (im w) = Some ResizeRight then windowStartWidth (im w) + deltaX
                else if resizeDirection (im w) = Some ResizeLeft then windowStartWidth (im w) - deltaX
                else windowStartWidth (im w));
             newX0 =
               (if resizeDirection (im w) = Some ResizeRight then windowStartX (im w)
                else if resizeDirection (im w) = Some ResizeLeft then windowStartX (im w) + deltaX
                else windowStartX (im w));
             newWidth = max 400 newWidth0;
             newX =
               (if resizeDirection (im w) = Some ResizeLeft \<and> newWidth = 400
                then windowStartX (im w) + (windowStartWidth (im w) - 400)
                else newX0)
         in setWindowWidthAndPosition newWidth newX (windowStartY (im w)) w)
      else w)"

definition onMouseUp :: "world \<Rightarrow> world" where
  "onMouseUp w =
     (if isDraggingPet (im w) \<and> draggingPetElement (im w) \<noteq> None then
        (case draggingPetElement (im w) of
           None \<Rightarrow> w
         | Some r \<Rightarrow>
             (let pid = dataPetId (heap (pg w) r);
                  newX = offsetLeft (heap (pg w) r);
                  w1 = w\<lparr>pg := (pg w)\<lparr>heap := (heap (pg w))(r := (heap (pg w) r)\<lparr>styleCursor := []\<rparr>)\<rparr>,
                         im := (im w)\<lparr>draggingPetElement := None, isDraggingPet := False\<rparr>\<rparr>
              in if pid \<noteq> [] \<and> onPetPositionChange (im w1)
                 then w1\<lparr>petPositionCalls := petPositionCalls w1 @ [(pid, newX)]\<rparr>
                 else w1))
      else if isDragging (im w) \<or> isResizing (im w) then
        (let w1 = w\<lparr>im := (im w)\<lparr>isDragging := False, isResizing := False, resizeDirection := None\<rparr>\<rparr>
         in if onWindowConfigChange (im w1)
            then w1\<lparr>windowConfigCalls :=
                      windowConfigCalls w1 @ [(winX (win w1), winY (win w1), windowWidth (im w1))]\<rparr>
            else w1)
      else w)"

definition updateWindowWidth :: "real \<Rightarrow> world \<Rightarrow> world" where
  "updateWindowWidth width w = w\<lparr>im := (im w)\<lparr>windowWidth := width\<rparr>\<rparr>"

text \<open>\<open>syncPetPosition\<close> of the manager, the call that commits a dragged position.\<close>

definition syncPetPosition ::
  "string \<Rightarrow> real list \<Rightarrow> MultiPetManager \<times> page \<Rightarrow> ((MultiPetManager \<times> page) \<times> real list) option" where
  "syncPetPosition pid rs mp =
     (case mp of (m, p) \<Rightarrow>
        (case map_of (controllers m) pid of
           None \<Rightarrow> Some ((m, p), rs)
         | Some c \<Rightarrow>
             (case syncPosition rs (c, heap p (elementRef c)) of
                None \<Rightarrow> None
              | Some ((c', e'), rs') \<Rightarrow>
                  Some ((m\<lparr>controllers := AList.update pid c' (controllers m)\<rparr>,
                         p\<lparr>heap := (heap p)(elementRef c := e')\<rparr>), rs'))))"

section \<open>Auxiliary definitions and example states\<close>

text \<open>
  The position after the moving branch of \<open>animate\<close>: the step, then the two boundary
  tests in the order of the source.
\<close>

definition steppedX :: "PetController \<Rightarrow> element \<Rightarrow> real" where
  "steppedX c e =
     (let x1 = posX c + baseSpeed c * speedMultiplier c * real_of_int (direction c) in
      if x1 \<le> tickMargin then tickMargin
      else if x1 \<ge> tickMaxX c e then tickMaxX c e else x1)"

text \<open>
  Concrete states for the examples: a 64 pixel element, a walking pet in a container of
  400, a descriptor of the feed, and the egg that the constructor builds in that
  container from the draws 0.95, 0.3, 0.5 and 0.1.
\<close>

definition exampleElement :: element where
  "exampleElement =
     \<lparr>dataPetId = ''pet-1'', offsetLeft = 0, offsetWidth = 64, offsetHeight = 64,
      classWalking = False, classFacingRight = False, classFacingLeft = False,
      styleCursor = [], attached = True\<rparr>"

definition exampleWalker :: PetController where
  "exampleWalker =
     \<lparr>elementRef = 0, containerWidth = 400, posX = 100, direction = 1, baseSpeed = 1,
      scale = 1, animationFrameId = None, isPaused = False, isMovementEnabled = True,
      petId = ''pet-1'', spritePath = ''charmander/stage1.gif'', stage = ''stage1'',
      defaultFacing = FacingLeft, targetX = 300, isResting = False, restEndTime = 0,
      speedMultiplier = 1\<rparr>"

definition examplePetState :: PetState where
  "examplePetState =
     \<lparr>odangoId = ''pet-1'', psScale = 1, psSpritePath = ''charmander/stage1.gif'',
      psStage = ''stage1'', psDefaultFacing = Some FacingLeft\<rparr>"

definition freshEgg :: PetController where
  "freshEgg =
     \<lparr>elementRef = 0, containerWidth = 400, posX = 335, direction = - 1, baseSpeed = 1,
      scale = 1, animationFrameId = None, isPaused = False, isMovementEnabled = True,
      petId = [], spritePath = [], stage = ''egg'', defaultFacing = FacingLeft,
      targetX = 248 / 5, isResting = False, restEndTime = 0, speedMultiplier = 1\<rparr>"

definition freshEggElement :: element where
  "freshEggElement = exampleElement\<lparr>offsetLeft := 335, classFacingLeft := True\<rparr>"

text \<open>
  Two descriptions of the hotkey state after a press at \<open>t0\<close> from the state \<open>w0\<close>: the
  hold timer is pending, or it has fired and toggled the mode once.
\<close>

definition holdPending :: "world \<Rightarrow> real \<Rightarrow> world \<Rightarrow> bool" where
  "holdPending w0 t0 w \<longleftrightarrow>
     hotkeyPressedAt (im w) = Some t0 \<and>
     holdCheckTimer (im w) = Some (Suc (nextTimerId w0)) \<and>
     timers w = [(Suc (nextTimerId w0), t0 + HOLD_DURATION_MS)] \<and>
     isInteractionMode (im w) = isInteractionMode (im w0) \<and>
     modeLog w = modeLog w0"

definition holdFired :: "world \<Rightarrow> real \<Rightarrow> world \<Rightarrow> bool" where
  "holdFired w0 t0 w \<longleftrightarrow>
     hotkeyPressedAt (im w) = Some t0 \<and>
     timers w = [] \<and>
     isInteractionMode (im w) = (\<not> isInteractionMode (im w0)) \<and>
     modeLog w = modeLog w0 @ [\<not> isInteractionMode (im w0)]"

text \<open>
  An example application state: pass-through mode, a window of width 500 at (200, 40),
  and one pet at position 50 whose element is the reference 0.
\<close>

definition exampleInteraction :: interaction where
  "exampleInteraction =
     \<lparr>isInteractionMode = False, hotkeyPressedAt = None, holdCheckTimer = None,
      borderOverlay = Some False, resizeHandles = [(ResizeLeft, False), (ResizeRight, False)],
      windowWidth = 500, windowHeight = 200, isDragging = False, isResizing = False,
      isDraggingPet = False, resizeDirection = None, dragStartX = 0, dragStartY = 0,
      windowStartX = 0, windowStartY = 0, windowStartWidth = 0, draggingPetElement = None,
      petStartX = 0, onWindowConfigChange = True, onPetPositionChange = True\<rparr>"

definition examplePage :: page where
  "examplePage =
     \<lparr>heap = (\<lambda>_. exampleElement\<lparr>offsetLeft := 50\<rparr>), nextRef = 1, nextFrame = 1,
      globalScreenScaleFactor = 1, cssPetWidth = 64\<rparr>"

definition exampleManager :: MultiPetManager where
  "exampleManager =
     \<lparr>mgrContainerWidth = 500,
      controllers = [(''pet-1'', exampleWalker\<lparr>containerWidth := 500, posX := 50\<rparr>)],
      petSettingsGetter = None\<rparr>"

definition exampleWorld :: world where
  "exampleWorld =
     \<lparr>im = exampleInteraction, pg = examplePage,
      win = \<lparr>winX = 200, winY = 40, winWidth = 500, winHeight = 200,
             ignoreCursorEvents = True, shown = True\<rparr>,
      mgr = exampleManager, timers = [], nextTimerId = 0, listening = False,
      petPositionCalls = [], windowConfigCalls = [], modeLog = []\<rparr>"

text \<open>
  Example mouse events: a press on the left resize handle, a press on the pet's element,
  and the example state with a window of width 300.
\<close>

definition leftHandleDown :: mouseEvent where
  "leftHandleDown =
     \<lparr>screenX = 1000, screenY = 300, clientX = 0, shiftKey = False,
      target = OnResizeHandle ResizeLeft\<rparr>"

definition petDown :: mouseEvent where
  "petDown = \<lparr>screenX = 900, screenY = 300, clientX = 70, shiftKey = False, target = OnPet 0\<rparr>"

definition narrowWorld :: world where
  "narrowWorld = exampleWorld\<lparr>im := exampleInteraction\<lparr>windowWidth := 300\<rparr>\<rparr>"

text \<open>
  The attributes a descriptor gives a controller, the attributes of the whole registry by
  id, and what processing a snapshot in order does to them: each descriptor overwrites
  the entry of its id.
\<close>

definition petAttributes :: "PetState \<Rightarrow> string \<times> real \<times> string \<times> string \<times> SpriteFacing" where
  "petAttributes st =
     (odangoId st, psScale st, psSpritePath st, psStage st,
      (case psDefaultFacing st of None \<Rightarrow> FacingLeft | Some f \<Rightarrow> f))"

definition registryAttributes ::
  "MultiPetManager \<Rightarrow> string \<Rightarrow> (string \<times> real \<times> string \<times> string \<times> SpriteFacing) option" where
  "registryAttributes m pid = map_option snapshotAttributes (map_of (controllers m) pid)"

fun overwriteAll ::
  "PetState list \<Rightarrow> (string \<Rightarrow> (string \<times> real \<times> string \<times> string \<times> SpriteFacing) option)
     \<Rightarrow> string \<Rightarrow> (string \<times> real \<times> string \<times> string \<times> SpriteFacing) option" where
  "overwriteAll [] a = a"
| "overwriteAll (st # sts) a = overwriteAll sts (a(odangoId st \<mapsto> petAttributes st))"

definition twoPets :: "PetState list" where
  "twoPets =
     [examplePetState\<lparr>psScale := 2\<rparr>,
      \<lparr>odangoId = ''pet-2'', psScale = 1, psSpritePath = ''egg.gif'', psStage = ''egg'',
       psDefaultFacing = None\<rparr>,
      examplePetState\<lparr>psDefaultFacing := Some FacingRight\<rparr>]"

text \<open>
  What holds of the hotkey state in every state the event loop reaches from an idle one:
  either no timer is pending, or the one pending timer is the hold timer of the press in
  progress.
\<close>

definition hotkeyConsistent :: "world \<Rightarrow> bool" where
  "hotkeyConsistent w \<longleftrightarrow>
     timers w = [] \<or>
     (hotkeyPressedAt (im w) \<noteq> None \<and>
      (case holdCheckTimer (im w) of
         None \<Rightarrow> False
       | Some handle \<Rightarrow> handle \<noteq> 0 \<and> map fst (timers w) = [handle]))"

text \<open>
  Enough draws: a computation that consumes draws returns, with one result and the rest of
  the draws untouched, whenever the list starts with a suitable finite run of draws from
  \<open>[0, 1)\<close>.
\<close>

definition drawsSuffice :: "(real list \<Rightarrow> ('a \<times> real list) option) \<Rightarrow> bool" where
  "drawsSuffice f \<longleftrightarrow>
     (\<exists>pre res. (\<forall>r \<in> set pre. 0 \<le> r \<and> r < 1) \<and> (\<forall>rest. f (pre @ rest) = Some (res, rest)))"

section \<open>Facts about \<open>PetController\<close>\<close>

lemmas example_defs = exampleElement_def exampleWalker_def freshEgg_def freshEggElement_def

lemmas tick_defs = animate_def moveStep_def boundaryCheck_def arrivalCheck_def restThenPick_def
  startResting_def pickNewTarget_def updateDirection_def updatePosition_def needsFlip_def
  isEgg_def tickMargin_def tickMaxX_def pickMinX_def pickMaxX_def petWidthOf_def inTickRange_def

lemma updateDirection_fst: "fst (updateDirection ce) = fst ce"
  by (cases ce) (simp add: updateDirection_def)

lemma updateDirection_snd:
  "offsetWidth (snd (updateDirection ce)) = offsetWidth (snd ce)"
  "offsetLeft (snd (updateDirection ce)) = offsetLeft (snd ce)"
  by (cases ce, simp add: updateDirection_def)+

lemma animate_egg:
  "isEgg c \<Longrightarrow> animate now fid rs (c, e) = Some ((c\<lparr>animationFrameId := Some fid\<rparr>, e), rs)"
  by (simp add: animate_def)

lemma ticks_egg:
  "isEgg c \<Longrightarrow> \<exists>c'. ticks frames rs (c, e) = Some ((c', e), rs) \<and> posX c' = posX c \<and> isEgg c'
      \<and> c'\<lparr>animationFrameId := None\<rparr> = c\<lparr>animationFrameId := None\<rparr>"
proof (induction frames arbitrary: c)
  case Nil
  then show ?case by simp
next
  case (Cons f frames)
  obtain now fid where f: "f = (now, fid)" by (cases f)
  let ?c1 = "c\<lparr>animationFrameId := Some fid\<rparr>"
  have egg1: "isEgg ?c1" using Cons.prems by (simp add: isEgg_def)
  from Cons.IH[OF egg1] obtain c' where
    c': "ticks frames rs (?c1, e) = Some ((c', e), rs)" "posX c' = posX ?c1" "isEgg c'"
        "c'\<lparr>animationFrameId := None\<rparr> = ?c1\<lparr>animationFrameId := None\<rparr>"
    by blast
  show ?case
    using c' Cons.prems by (auto simp: f animate_egg)
qed

lemma pickLoop_span_small:
  "maxX - minX \<le> 100 \<Longrightarrow> pickLoop minX maxX cur (r # rs) = Some (minX + r * (maxX - minX), rs)"
  by (simp add: Let_def)

lemma pickLoop_far:
  "pickLoop minX maxX cur rs = Some (t, rs') \<Longrightarrow> maxX - minX > 100 \<Longrightarrow> \<bar>t - cur\<bar> \<ge> 50"
  by (induction rs) (auto simp: Let_def split: if_splits)

lemma pickLoop_accepts:
  "\<exists>r \<in> set rs. \<not> (\<bar>minX + r * (maxX - minX) - cur\<bar> < 50 \<and> maxX - minX > 100)
   \<Longrightarrow> pickLoop minX maxX cur rs \<noteq> None"
  by (induction rs) (auto simp: Let_def)

lemma pickLoop_range:
  "pickLoop minX maxX cur rs = Some (t, rs') \<Longrightarrow> \<forall>r \<in> set rs. 0 \<le> r \<and> r < 1 \<Longrightarrow> minX \<le> maxX
   \<Longrightarrow> minX \<le> t \<and> t \<le> maxX"
proof (induction rs)
  case Nil
  then show ?case by simp
next
  case (Cons r rs)
  have r: "0 \<le> r" "r < 1" using Cons.prems(2) by auto
  have a: "0 \<le> r * (maxX - minX)" using r Cons.prems(3) by simp
  have b: "r * (maxX - minX) \<le> 1 * (maxX - minX)"
    using r Cons.prems(3) by (intro mult_right_mono) auto
  show ?case
  proof (cases "\<bar>minX + r * (maxX - minX) - cur\<bar> < 50 \<and> maxX - minX > 100")
    case True
    then show ?thesis using Cons by (auto simp: Let_def)
  next
    case False
    then have "t = minX + r * (maxX - minX)" using Cons.prems(1) by (auto simp: Let_def)
    then show ?thesis using a b by simp
  qed
qed

lemma pick_draw_exists:
  assumes "maxX - minX > (100::real)"
  shows "\<exists>r. 0 \<le> r \<and> r < 1 \<and> \<bar>minX + r * (maxX - minX) - cur\<bar> \<ge> 50"
proof (cases "\<bar>minX - cur\<bar> \<ge> 50")
  case True
  then show ?thesis by (intro exI[of _ 0]) simp
next
  case False
  define d where "d = maxX - minX"
  have d: "d > 100" using assms by (simp add: d_def)
  have "100 / d * d = 100" using d by simp
  then have "\<bar>minX + 100 / d * d - cur\<bar> \<ge> 50" using False by simp
  moreover have "0 \<le> 100 / d" "100 / d < 1" using d by simp_all
  ultimately show ?thesis unfolding d_def by blast
qed

lemma pickNewTarget_shape:
  assumes "pickNewTarget rs (c, e) = Some ((c', e'), rs')"
  shows "\<exists>t. pickLoop pickMinX (pickMaxX c e) (posX c) rs = Some (t, rs')
           \<and> (c', e') = updateDirection
                 (c\<lparr>targetX := t, direction := (if t > posX c then 1 else - 1)\<rparr>, e)"
proof (cases "pickLoop pickMinX (pickMaxX c e) (posX c) rs")
  case None
  then show ?thesis using assms by (simp add: pickNewTarget_def)
next
  case (Some a)
  obtain t rs1 where a: "a = (t, rs1)" by (cases a)
  show ?thesis using assms Some unfolding pickNewTarget_def a by simp
qed

lemma pickNewTarget_frame:
  assumes "pickNewTarget rs (c, e) = Some ((c', e'), rs')"
  shows "posX c' = posX c \<and> containerWidth c' = containerWidth c \<and> offsetWidth e' = offsetWidth e
         \<and> offsetLeft e' = offsetLeft e \<and> isResting c' = isResting c \<and> stage c' = stage c"
proof -
  from pickNewTarget_shape[OF assms] obtain t where
    eq: "(c', e') = updateDirection (c\<lparr>targetX := t, direction := (if t > posX c then 1 else - 1)\<rparr>, e)"
    by blast
  have "c' = fst (updateDirection (c\<lparr>targetX := t, direction := (if t > posX c then 1 else - 1)\<rparr>, e))"
       "e' = snd (updateDirection (c\<lparr>targetX := t, direction := (if t > posX c then 1 else - 1)\<rparr>, e))"
    using eq by (metis fst_conv, metis snd_conv)
  then show ?thesis by (simp add: updateDirection_fst updateDirection_snd)
qed

lemma pickNewTarget_target:
  assumes "pickNewTarget rs (c, e) = Some ((c', e'), rs')"
  shows "pickLoop pickMinX (pickMaxX c e) (posX c) rs = Some (targetX c', rs')
         \<and> direction c' = (if targetX c' > posX c then 1 else - 1)
         \<and> classFacingRight e' = needsFlip c' \<and> classFacingLeft e' = (\<not> needsFlip c')"
proof -
  from pickNewTarget_shape[OF assms] obtain t where
    l: "pickLoop pickMinX (pickMaxX c e) (posX c) rs = Some (t, rs')" and
    eq: "(c', e') = updateDirection (c\<lparr>targetX := t, direction := (if t > posX c then 1 else - 1)\<rparr>, e)"
    by blast
  let ?c = "c\<lparr>targetX := t, direction := (if t > posX c then 1 else - 1)\<rparr>"
  have c': "c' = ?c" using eq updateDirection_fst[of "(?c, e)"] by (metis fst_conv)
  have e': "e' = snd (updateDirection (?c, e))" using eq by (metis snd_conv)
  have "classFacingRight e' = needsFlip ?c \<and> classFacingLeft e' = (\<not> needsFlip ?c)"
    unfolding e' by (simp add: updateDirection_def)
  then show ?thesis using l c' by simp
qed

lemma startResting_shape:
  assumes "startResting now rs (c, e) = Some ((c', e'), rs')"
  shows "\<exists>r. rs = r # rs' \<and> c' = c\<lparr>isResting := True, restEndTime := now + (2000 + r * 6000)\<rparr>
            \<and> e' = e\<lparr>classWalking := False\<rparr>"
proof (cases rs)
  case Nil
  then show ?thesis using assms by (simp add: startResting_def)
next
  case (Cons r rs1)
  then show ?thesis using assms by (simp add: startResting_def)
qed

lemma startResting_frame:
  assumes "startResting now rs (c, e) = Some ((c', e'), rs')"
  shows "posX c' = posX c \<and> containerWidth c' = containerWidth c \<and> offsetWidth e' = offsetWidth e
         \<and> targetX c' = targetX c"
  using startResting_shape[OF assms] by auto

lemma restThenPick_frame:
  assumes "restThenPick now rs (c, e) = Some ((c', e'), rs')"
  shows "posX c' = posX c \<and> containerWidth c' = containerWidth c \<and> offsetWidth e' = offsetWidth e"
proof (cases "startResting now rs (c, e)")
  case None
  then show ?thesis using assms by (simp add: restThenPick_def)
next
  case (Some a)
  obtain c1 e1 rs1 where a: "a = ((c1, e1), rs1)" by (cases a) auto
  have b: "pickNewTarget rs1 (c1, e1) = Some ((c', e'), rs')"
    using assms Some by (simp add: restThenPick_def a)
  show ?thesis using startResting_frame[OF Some[unfolded a]] pickNewTarget_frame[OF b] by simp
qed

lemma boundaryCheck_frame:
  assumes "boundaryCheck now rs (c1, e) = Some ((c2, e2), rs2)"
  shows "posX c2 = (if posX c1 \<le> tickMargin then tickMargin
                    else if posX c1 \<ge> tickMaxX c1 e then tickMaxX c1 e else posX c1)
         \<and> containerWidth c2 = containerWidth c1 \<and> offsetWidth e2 = offsetWidth e"
proof -
  consider (lo) "posX c1 \<le> tickMargin"
    | (hi) "\<not> posX c1 \<le> tickMargin" "posX c1 \<ge> tickMaxX c1 e"
    | (mid) "\<not> posX c1 \<le> tickMargin" "\<not> posX c1 \<ge> tickMaxX c1 e"
    by blast
  then show ?thesis
  proof cases
    case lo
    then have "restThenPick now rs (c1\<lparr>posX := tickMargin\<rparr>, e) = Some ((c2, e2), rs2)"
      using assms by (simp add: boundaryCheck_def Let_def)
    from restThenPick_frame[OF this] show ?thesis using lo by simp
  next
    case hi
    then have "restThenPick now rs (c1\<lparr>posX := tickMaxX c1 e\<rparr>, e) = Some ((c2, e2), rs2)"
      using assms by (simp add: boundaryCheck_def Let_def tickMaxX_def)
    from restThenPick_frame[OF this] show ?thesis using hi by simp
  next
    case mid
    then show ?thesis using assms by (simp add: boundaryCheck_def Let_def tickMaxX_def)
  qed
qed

lemma arrivalCheck_frame:
  assumes "arrivalCheck now sp rs (c2, e2) = Some ((c3, e3), rs3)"
  shows "posX c3 = posX c2 \<and> containerWidth c3 = containerWidth c2 \<and> offsetWidth e3 = offsetWidth e2"
  using assms startResting_frame
  by (auto simp: arrivalCheck_def Let_def split: if_splits)

lemma moveStep_frame:
  assumes "moveStep now rs (c, e) = Some ((c', e'), rs')"
  shows "posX c' = steppedX c e \<and> containerWidth c' = containerWidth c \<and> offsetWidth e' = offsetWidth e"
proof -
  let ?sp = "baseSpeed c * speedMultiplier c"
  let ?c1 = "c\<lparr>posX := posX c + ?sp * real_of_int (direction c)\<rparr>"
  obtain c2 e2 rs2 c3 e3 where
    b: "boundaryCheck now rs (?c1, e) = Some ((c2, e2), rs2)" and
    a: "arrivalCheck now ?sp rs2 (c2, e2) = Some ((c3, e3), rs')" and
    u: "(c', e') = updatePosition (c3, e3)"
    using assms by (auto simp: moveStep_def Let_def split: option.splits)
  have "tickMaxX ?c1 e = tickMaxX c e" by (simp add: tickMaxX_def)
  then show ?thesis
    using boundaryCheck_frame[OF b] arrivalCheck_frame[OF a] u
    by (auto simp: steppedX_def Let_def updatePosition_def)
qed

lemma animate_frame:
  assumes "animate now fid rs (c, e) = Some ((c', e'), rs')"
  shows "containerWidth c' = containerWidth c \<and> offsetWidth e' = offsetWidth e
       \<and> posX c' = (if \<not> isEgg c \<and> \<not> isPaused c \<and> isMovementEnabled c \<and> \<not> isResting c
                     then steppedX c e else posX c)"
proof (cases "\<not> isEgg c \<and> \<not> isPaused c \<and> isMovementEnabled c \<and> \<not> isResting c")
  case True
  then obtain c1 e1 where "moveStep now rs (c, e) = Some ((c1, e1), rs')"
     "c' = c1\<lparr>animationFrameId := Some fid\<rparr>" "e' = e1"
    using assms by (auto simp: animate_def Let_def split: option.splits)
  then show ?thesis using moveStep_frame True by auto
next
  case False
  then show ?thesis using assms pickNewTarget_frame
    by (auto simp: animate_def Let_def split: option.splits if_splits)
qed

lemma steppedX_clamp:
  assumes "tickMargin \<le> tickMaxX c e"
  shows "steppedX c e = max tickMargin (min (tickMaxX c e)
           (posX c + baseSpeed c * speedMultiplier c * real_of_int (direction c)))"
  using assms by (auto simp: steppedX_def Let_def max_def min_def)

text \<open>
  Every operation of the controller returns when it is given enough draws; for the loop
  of \<open>pickNewTarget\<close> one acceptable draw exists in \<open>[0, 1)\<close> whatever the position is.
\<close>

lemma drawsSuffice_return: "drawsSuffice (\<lambda>rs. Some (x, rs))"
  unfolding drawsSuffice_def by (intro exI[of _ "[]"] exI[of _ x]) simp

lemma drawsSuffice_bind:
  assumes "drawsSuffice f" and "\<And>res. drawsSuffice (g res)"
  shows "drawsSuffice (\<lambda>rs. case f rs of None \<Rightarrow> None | Some (res, rs') \<Rightarrow> g res rs')"
proof -
  from assms(1) obtain pre1 res1 where
    p1: "\<forall>r \<in> set pre1. 0 \<le> r \<and> r < 1" and f: "\<And>rest. f (pre1 @ rest) = Some (res1, rest)"
    unfolding drawsSuffice_def by blast
  from assms(2)[of res1] obtain pre2 res2 where
    p2: "\<forall>r \<in> set pre2. 0 \<le> r \<and> r < 1" and g: "\<And>rest. g res1 (pre2 @ rest) = Some (res2, rest)"
    unfolding drawsSuffice_def by blast
  have "\<forall>r \<in> set (pre1 @ pre2). 0 \<le> r \<and> r < 1" using p1 p2 by auto
  moreover have "\<forall>rest. (case f ((pre1 @ pre2) @ rest) of None \<Rightarrow> None | Some (res, rs') \<Rightarrow> g res rs')
                   = Some (res2, rest)"
    using f[of "pre2 @ _"] g by simp
  ultimately show ?thesis unfolding drawsSuffice_def by blast
qed

lemma drawsSuffice_map:
  assumes "drawsSuffice f"
  shows "drawsSuffice (\<lambda>rs. case f rs of None \<Rightarrow> None | Some (res, rs') \<Rightarrow> Some (h res, rs'))"
  by (rule drawsSuffice_bind[OF assms]) (rule drawsSuffice_return)

lemma drawsSuffice_if:
  assumes "drawsSuffice f" and "drawsSuffice g"
  shows "drawsSuffice (\<lambda>rs. if b then f rs else g rs)"
  using assms by (cases b) simp_all

lemma startResting_suffice: "drawsSuffice (\<lambda>rs. startResting now rs ce)"
proof -
  obtain c e where ce: "ce = (c, e)" by (cases ce)
  have "\<forall>rest. startResting now ([0] @ rest) ce
          = Some ((c\<lparr>isResting := True, restEndTime := now + (2000 + 0 * 6000)\<rparr>,
                   e\<lparr>classWalking := False\<rparr>), rest)"
    by (simp add: startResting_def ce)
  moreover have "\<forall>r \<in> set [0 :: real]. 0 \<le> r \<and> r < 1" by simp
  ultimately show ?thesis unfolding drawsSuffice_def by blast
qed

lemma pickNewTarget_suffice: "drawsSuffice (\<lambda>rs. pickNewTarget rs ce)"
proof -
  obtain c e where ce: "ce = (c, e)" by (cases ce)
  have "\<exists>r. 0 \<le> r \<and> r < 1 \<and>
          \<not> (\<bar>pickMinX + r * (pickMaxX c e - pickMinX) - posX c\<bar> < 50 \<and> pickMaxX c e - pickMinX > 100)"
  proof (cases "pickMaxX c e - pickMinX > 100")
    case True
    from pick_draw_exists[OF True, of "posX c"] show ?thesis by (metis not_less)
  next
    case False
    then show ?thesis by (intro exI[of _ 0]) simp
  qed
  then obtain r where r: "0 \<le> r" "r < 1"
    "\<not> (\<bar>pickMinX + r * (pickMaxX c e - pickMinX) - posX c\<bar> < 50 \<and> pickMaxX c e - pickMinX > 100)"
    by blast
  let ?t = "pickMinX + r * (pickMaxX c e - pickMinX)"
  have l: "pickLoop pickMinX (pickMaxX c e) (posX c) (r # rest) = Some (?t, rest)" for rest
    using r(3) by (auto simp: Let_def)
  have "\<forall>rest. pickNewTarget ([r] @ rest) ce
          = Some (updateDirection (c\<lparr>targetX := ?t, direction := (if ?t > posX c then 1 else - 1)\<rparr>, e), rest)"
    by (simp add: pickNewTarget_def ce l del: pickLoop.simps)
  moreover have "\<forall>q \<in> set [r]. 0 \<le> q \<and> q < 1" using r by simp
  ultimately show ?thesis unfolding drawsSuffice_def by blast
qed

lemma restThenPick_suffice: "drawsSuffice (\<lambda>rs. restThenPick now rs ce)"
  unfolding restThenPick_def
  by (rule drawsSuffice_bind[OF startResting_suffice pickNewTarget_suffice])

lemma boundaryCheck_suffice: "drawsSuffice (\<lambda>rs. boundaryCheck now rs ce)"
proof -
  obtain c e where ce: "ce = (c, e)" by (cases ce)
  show ?thesis
    unfolding boundaryCheck_def ce
    by (simp only: Let_def prod.case)
       (intro drawsSuffice_if restThenPick_suffice drawsSuffice_return)
qed

lemma arrivalCheck_suffice: "drawsSuffice (\<lambda>rs. arrivalCheck now sp rs ce)"
proof -
  obtain c e where ce: "ce = (c, e)" by (cases ce)
  show ?thesis
    unfolding arrivalCheck_def ce
    by (simp only: Let_def prod.case)
       (intro drawsSuffice_if startResting_suffice drawsSuffice_return)
qed

lemma moveStep_suffice: "drawsSuffice (\<lambda>rs. moveStep now rs ce)"
proof -
  obtain c e where ce: "ce = (c, e)" by (cases ce)
  show ?thesis
    unfolding moveStep_def ce
    apply (simp only: Let_def prod.case)
    apply (rule drawsSuffice_bind[OF boundaryCheck_suffice])
    apply (rule drawsSuffice_map[OF arrivalCheck_suffice])
    done
qed

lemma animate_suffice: "drawsSuffice (\<lambda>rs. animate now fid rs ce)"
proof -
  obtain c e where ce: "ce = (c, e)" by (cases ce)
  let ?h = "\<lambda>x. (((fst x)\<lparr>animationFrameId := Some fid\<rparr>), snd x)"
  consider (egg) "isEgg c"
    | (off) "\<not> isEgg c" "\<not> (\<not> isPaused c \<and> isMovementEnabled c)"
    | (rest) "\<not> isEgg c" "\<not> isPaused c \<and> isMovementEnabled c" "isResting c" "\<not> now \<ge> restEndTime c"
    | (wake) "\<not> isEgg c" "\<not> isPaused c \<and> isMovementEnabled c" "isResting c" "now \<ge> restEndTime c"
    | (move) "\<not> isEgg c" "\<not> isPaused c \<and> isMovementEnabled c" "\<not> isResting c"
    by blast
  then show ?thesis
  proof cases
    case egg
    then have "(\<lambda>rs. animate now fid rs ce) = (\<lambda>rs. Some ((c\<lparr>animationFrameId := Some fid\<rparr>, e), rs))"
      by (simp add: animate_def ce)
    then show ?thesis by (simp only: drawsSuffice_return)
  next
    case off
    then have "(\<lambda>rs. animate now fid rs ce) = (\<lambda>rs. Some ((c\<lparr>animationFrameId := Some fid\<rparr>, e), rs))"
      by (auto simp: animate_def ce Let_def)
    then show ?thesis by (simp only: drawsSuffice_return)
  next
    case rest
    then have "(\<lambda>rs. animate now fid rs ce) = (\<lambda>rs. Some ((c\<lparr>animationFrameId := Some fid\<rparr>, e), rs))"
      by (auto simp: animate_def ce Let_def)
    then show ?thesis by (simp only: drawsSuffice_return)
  next
    case wake
    have "(\<lambda>rs. animate now fid rs ce) =
          (\<lambda>rs. case pickNewTarget rs (c\<lparr>isResting := False\<rparr>, e) of None \<Rightarrow> None
                 | Some (res, rs') \<Rightarrow>
                     Some (((fst res)\<lparr>animationFrameId := Some fid\<rparr>, (snd res)\<lparr>classWalking := True\<rparr>), rs'))"
      using wake by (auto simp: animate_def ce Let_def fun_eq_iff split: option.splits)
    then show ?thesis
      using drawsSuffice_map[OF pickNewTarget_suffice,
          of "\<lambda>res. ((fst res)\<lparr>animationFrameId := Some fid\<rparr>, (snd res)\<lparr>classWalking := True\<rparr>)"]
      by simp
  next
    case move
    have "(\<lambda>rs. animate now fid rs ce) =
          (\<lambda>rs. case moveStep now rs (c, e) of None \<Rightarrow> None
                 | Some (res, rs') \<Rightarrow> Some (((fst res)\<lparr>animationFrameId := Some fid\<rparr>, snd res), rs'))"
      using move by (auto simp: animate_def ce Let_def fun_eq_iff split: option.splits)
    then show ?thesis
      using drawsSuffice_map[OF moveStep_suffice,
          of "\<lambda>res. ((fst res)\<lparr>animationFrameId := Some fid\<rparr>, snd res)"]
      by simp
  qed
qed

lemma start_suffice: "drawsSuffice (\<lambda>rs. start now fid rs ce)"
proof -
  obtain c e where ce: "ce = (c, e)" by (cases ce)
  show ?thesis
    unfolding start_def ce
    by (simp only: prod.case)
       (intro drawsSuffice_if animate_suffice drawsSuffice_return)
qed

lemma constructFrom_suffice: "drawsSuffice (\<lambda>rs. constructFrom ref cw x0 rs e)"
proof -
  let ?c = "(fieldDefaults ref cw)\<lparr>posX := x0, direction := (if (0 :: real) > 1 / 2 then 1 else - 1),
              speedMultiplier := 8 / 10 + 0 * (4 / 10)\<rparr>"
  from pickNewTarget_suffice[of "(?c, e)"] obtain pre res where
    p: "\<forall>r \<in> set pre. 0 \<le> r \<and> r < 1" and
    f: "\<And>rest. pickNewTarget (pre @ rest) (?c, e) = Some (res, rest)"
    unfolding drawsSuffice_def by blast
  have "\<forall>rest. constructFrom ref cw x0 ((0 # 0 # pre) @ rest) e
          = Some (updateDirection (updatePosition res), rest)"
    using f by (simp add: constructFrom_def)
  moreover have "\<forall>r \<in> set (0 # 0 # pre). 0 \<le> r \<and> r < 1" using p by simp
  ultimately show ?thesis unfolding drawsSuffice_def by blast
qed

lemma newPetController_suffice: "drawsSuffice (\<lambda>rs. newPetController ref cw initialX rs e)"
proof (cases initialX)
  case (Some x0)
  then show ?thesis by (simp add: newPetController_def constructFrom_suffice)
next
  case None
  from constructFrom_suffice[of ref cw "0 * (cw - 100) + 50" e] obtain pre res where
    p: "\<forall>r \<in> set pre. 0 \<le> r \<and> r < 1" and
    f: "\<And>rest. constructFrom ref cw (0 * (cw - 100) + 50) (pre @ rest) e = Some (res, rest)"
    unfolding drawsSuffice_def by blast
  have "\<forall>rest. newPetController ref cw initialX ((0 # pre) @ rest) e = Some (res, rest)"
    using f by (simp add: newPetController_def None)
  moreover have "\<forall>r \<in> set (0 # pre). 0 \<le> r \<and> r < 1" using p by simp
  ultimately show ?thesis unfolding drawsSuffice_def by blast
qed

lemma freshEgg_constructed:
  "newPetController 0 400 None [19 / 20, 3 / 10, 1 / 2, 1 / 10] exampleElement
     = Some ((freshEgg, freshEggElement), [])"
  by (simp add: newPetController_def constructFrom_def fieldDefaults_def SPEED_DEFAULT_def
        example_defs tick_defs Let_def)

section \<open>Claims about \<open>PetController\<close>\<close>

text \<open>
  C1, as amended. A tick never takes a position that lies within
  \<open>[margin, containerWidth - renderedWidth - margin]\<close> (margin 10) out of it, and it leaves
  that interval as it was. When the interval is not empty, a moving tick (not an egg, not
  paused, movement enabled, not resting) ends with the position at
  \<open>position + baseSpeed * speedMultiplier * direction\<close> clamped to the interval, hence
  inside it. A tick that does not move (an egg, a paused, disabled or resting pet) leaves
  the position as it was, inside or not.
\<close>

theorem animate_keeps_position_in_range:
  assumes "animate now fid rs (c, e) = Some ((c', e'), rs')"
  shows "(inTickRange (c, e) \<longrightarrow> inTickRange (c', e'))
       \<and> (\<not> isEgg c \<and> \<not> isPaused c \<and> isMovementEnabled c \<and> \<not> isResting c
            \<and> tickMargin \<le> tickMaxX c e \<longrightarrow>
          posX c' = max tickMargin (min (tickMaxX c e)
             (posX c + baseSpeed c * speedMultiplier c * real_of_int (direction c)))
          \<and> inTickRange (c', e'))
       \<and> (isEgg c \<or> isPaused c \<or> \<not> isMovementEnabled c \<or> isResting c \<longrightarrow> posX c' = posX c)
       \<and> tickMaxX c' e' = tickMaxX c e"
proof -
  note f = animate_frame[OF assms]
  have m: "tickMaxX c' e' = tickMaxX c e" using f by (simp add: tickMaxX_def petWidthOf_def)
  have in1: "inTickRange (c', e')" if "tickMargin \<le> tickMaxX c e"
     "\<not> isEgg c \<and> \<not> isPaused c \<and> isMovementEnabled c \<and> \<not> isResting c"
    using f m that steppedX_clamp[OF that(1)] by (simp add: inTickRange_def)
  have in2: "inTickRange (c', e')" if "inTickRange (c, e)"
  proof (cases "\<not> isEgg c \<and> \<not> isPaused c \<and> isMovementEnabled c \<and> \<not> isResting c")
    case True
    have "tickMargin \<le> tickMaxX c e" using that by (simp add: inTickRange_def)
    then show ?thesis using in1 True by blast
  next
    case False
    then show ?thesis using f m that by (auto simp: inTickRange_def)
  qed
  show ?thesis using in1 in2 m f steppedX_clamp by auto
qed

text \<open>The walking example: one tick from 100 moves to 101, inside \<open>[10, 326]\<close>.\<close>

theorem animate_keeps_position_in_range_witness:
  "animate 0 1 [] (exampleWalker, exampleElement)
     = Some ((exampleWalker\<lparr>posX := 101, animationFrameId := Some 1\<rparr>,
              exampleElement\<lparr>offsetLeft := 101\<rparr>), [])
   \<and> inTickRange (exampleWalker, exampleElement)
   \<and> inTickRange (exampleWalker\<lparr>posX := 101, animationFrameId := Some 1\<rparr>,
              exampleElement\<lparr>offsetLeft := 101\<rparr>)
   \<and> tickMargin \<le> tickMaxX exampleWalker exampleElement"
proof -
  have a: "animate 0 1 [] (exampleWalker, exampleElement)
     = Some ((exampleWalker\<lparr>posX := 101, animationFrameId := Some 1\<rparr>,
              exampleElement\<lparr>offsetLeft := 101\<rparr>), [])"
    by (simp add: example_defs tick_defs Let_def)
  have b: "inTickRange (exampleWalker, exampleElement)"
    by (simp add: example_defs tick_defs)
  have c: "tickMargin \<le> tickMaxX exampleWalker exampleElement"
    by (simp add: example_defs tick_defs)
  from animate_keeps_position_in_range[OF a] b c show ?thesis using a by blast
qed

text \<open>
  C1 as stated fails in two ways. The constructor puts a new pet at
  \<open>random * (containerWidth - 100) + 50\<close>, here 335 in a container of 400 with a 64 pixel
  element, above the upper bound 326; the pet is an egg, so the tick returns before any
  clamp and the position stays outside. And in a container of 70 the interval is empty: a
  moving tick clamps to the upper bound -4, below the margin.
\<close>

theorem animate_range_counterexample:
  "newPetController 0 400 None [19 / 20, 3 / 10, 1 / 2, 1 / 10] exampleElement
     = Some ((freshEgg, freshEggElement), [])
   \<and> animate 0 1 [] (freshEgg, freshEggElement)
     = Some ((freshEgg\<lparr>animationFrameId := Some 1\<rparr>, freshEggElement), [])
   \<and> \<not> inTickRange (freshEgg\<lparr>animationFrameId := Some 1\<rparr>, freshEggElement)
   \<and> animate 0 1 [0, 0] (exampleWalker\<lparr>containerWidth := 70, posX := 30\<rparr>, exampleElement)
     = Some ((exampleWalker\<lparr>containerWidth := 70, posX := - 4, targetX := 20,
                isResting := True, restEndTime := 2000, animationFrameId := Some 1\<rparr>,
              exampleElement\<lparr>offsetLeft := - 4, classFacingRight := True\<rparr>), [])
   \<and> \<not> inTickRange (exampleWalker\<lparr>containerWidth := 70, posX := - 4, targetX := 20,
                isResting := True, restEndTime := 2000, animationFrameId := Some 1\<rparr>,
              exampleElement\<lparr>offsetLeft := - 4, classFacingRight := True\<rparr>)"
  by (simp add: freshEgg_constructed) (simp add: example_defs tick_defs Let_def)

text \<open>
  C7. For an entity whose stage is \<open>egg\<close>, any number of ticks return, consume no draw,
  and leave the position (and the element, so the rendered position too) unchanged,
  whatever its resting, pause and movement-enabled flags are.
\<close>

theorem egg_position_invariant:
  assumes "stage c = ''egg''"
  shows "\<exists>c'. ticks frames rs (c, e) = Some ((c', e), rs) \<and> posX c' = posX c \<and> stage c' = ''egg''"
  using ticks_egg[of c frames rs e] assms by (auto simp: isEgg_def)

text \<open>Three ticks of a resting, paused egg at 335.\<close>

theorem egg_position_invariant_witness:
  "stage (freshEgg\<lparr>isResting := True, isPaused := True\<rparr>) = ''egg''
   \<and> (\<exists>c'. ticks [(0, 1), (16, 2), (33, 3)] [1 / 2] (freshEgg\<lparr>isResting := True, isPaused := True\<rparr>, freshEggElement)
           = Some ((c', freshEggElement), [1 / 2])
         \<and> posX c' = 335 \<and> stage c' = ''egg'')"
proof -
  have s: "stage (freshEgg\<lparr>isResting := True, isPaused := True\<rparr>) = ''egg''"
    by (simp add: freshEgg_def)
  have p: "posX (freshEgg\<lparr>isResting := True, isPaused := True\<rparr>) = 335"
    by (simp add: freshEgg_def)
  from egg_position_invariant[OF s, of "[(0, 1), (16, 2), (33, 3)]" "[1 / 2]" freshEggElement]
  show ?thesis using s p by simp
qed

text \<open>
  C2, as amended. With \<open>span = (containerWidth - petWidth - 20) - 20\<close>, the span of
  \<open>pickNewTarget\<close>: if the span exceeds 100, every target the selection returns is at
  least 50 away from the current position, and the selection returns as soon as the
  draws hold one that far away; if the span is at most 100, the first draw is accepted
  without retry, whatever its distance.
\<close>

theorem pickNewTarget_keeps_distance:
  "(pickMaxX c e - pickMinX > 100 \<longrightarrow>
      (\<forall>c' e' rs'. pickNewTarget rs (c, e) = Some ((c', e'), rs') \<longrightarrow> \<bar>targetX c' - posX c\<bar> \<ge> 50))
   \<and> (pickMaxX c e - pickMinX > 100 \<and>
        (\<exists>q \<in> set rs. \<bar>pickMinX + q * (pickMaxX c e - pickMinX) - posX c\<bar> \<ge> 50) \<longrightarrow>
        pickNewTarget rs (c, e) \<noteq> None)
   \<and> (pickMaxX c e - pickMinX \<le> 100 \<longrightarrow>
        (\<exists>c' e'. pickNewTarget (r # rs) (c, e) = Some ((c', e'), rs)
            \<and> targetX c' = pickMinX + r * (pickMaxX c e - pickMinX)))"
proof (intro conjI impI allI)
  fix c' e' rs'
  assume "pickMaxX c e - pickMinX > 100" "pickNewTarget rs (c, e) = Some ((c', e'), rs')"
  then show "\<bar>targetX c' - posX c\<bar> \<ge> 50"
    using pickNewTarget_target pickLoop_far by blast
next
  assume a: "pickMaxX c e - pickMinX > 100 \<and>
        (\<exists>q \<in> set rs. \<bar>pickMinX + q * (pickMaxX c e - pickMinX) - posX c\<bar> \<ge> 50)"
  then have "\<exists>q \<in> set rs. \<not> (\<bar>pickMinX + q * (pickMaxX c e - pickMinX) - posX c\<bar> < 50
      \<and> pickMaxX c e - pickMinX > 100)" by (metis not_less)
  from pickLoop_accepts[OF this] obtain t rs' where
    "pickLoop pickMinX (pickMaxX c e) (posX c) rs = Some (t, rs')" by auto
  then show "pickNewTarget rs (c, e) \<noteq> None" by (simp add: pickNewTarget_def)
next
  assume "pickMaxX c e - pickMinX \<le> 100"
  from pickLoop_span_small[OF this, of "posX c" r rs]
  have l: "pickLoop pickMinX (pickMaxX c e) (posX c) (r # rs)
            = Some (pickMinX + r * (pickMaxX c e - pickMinX), rs)" .
  let ?c = "c\<lparr>targetX := pickMinX + r * (pickMaxX c e - pickMinX),
              direction := (if pickMinX + r * (pickMaxX c e - pickMinX) > posX c then 1 else - 1)\<rparr>"
  have "pickNewTarget (r # rs) (c, e) = Some (updateDirection (?c, e), rs)"
    unfolding pickNewTarget_def using l by simp
  moreover have "targetX (fst (updateDirection (?c, e))) = pickMinX + r * (pickMaxX c e - pickMinX)"
    by (simp add: updateDirection_fst)
  ultimately show "\<exists>c' e'. pickNewTarget (r # rs) (c, e) = Some ((c', e'), rs)
            \<and> targetX c' = pickMinX + r * (pickMaxX c e - pickMinX)"
    by (metis prod.collapse)
qed

text \<open>
  A wide container (span 296), where the first draw lands 9 away and is redrawn, and a
  narrow one (span 46), where the first draw is taken.
\<close>

theorem pickNewTarget_keeps_distance_witness:
  "pickMaxX exampleWalker exampleElement - pickMinX > 100
   \<and> pickNewTarget [1 / 4, 9 / 10] (exampleWalker, exampleElement)
       = Some ((exampleWalker\<lparr>targetX := 1432 / 5\<rparr>, exampleElement\<lparr>classFacingRight := True\<rparr>), [])
   \<and> \<bar>1432 / 5 - posX exampleWalker\<bar> \<ge> 50
   \<and> pickMaxX (exampleWalker\<lparr>containerWidth := 150\<rparr>) exampleElement - pickMinX \<le> 100
   \<and> (\<exists>c' e'. pickNewTarget [1 / 2, 9 / 10] (exampleWalker\<lparr>containerWidth := 150\<rparr>, exampleElement)
          = Some ((c', e'), [9 / 10]) \<and> targetX c' = 43)"
proof -
  have w: "pickMaxX exampleWalker exampleElement - pickMinX > 100"
    by (simp add: example_defs tick_defs)
  have p: "pickNewTarget [1 / 4, 9 / 10] (exampleWalker, exampleElement)
       = Some ((exampleWalker\<lparr>targetX := 1432 / 5\<rparr>, exampleElement\<lparr>classFacingRight := True\<rparr>), [])"
    by (simp add: example_defs tick_defs Let_def)
  have n: "pickMaxX (exampleWalker\<lparr>containerWidth := 150\<rparr>) exampleElement - pickMinX \<le> 100"
    by (simp add: example_defs tick_defs)
  have v: "pickMinX + 1 / 2 * (pickMaxX (exampleWalker\<lparr>containerWidth := 150\<rparr>) exampleElement - pickMinX) = 43"
    by (simp add: example_defs tick_defs)
  have t: "targetX (exampleWalker\<lparr>targetX := 1432 / 5\<rparr>) = 1432 / 5" by simp
  from pickNewTarget_keeps_distance[of exampleWalker exampleElement "[1 / 4, 9 / 10]" "1 / 2"] w p t
  have d: "\<bar>1432 / 5 - posX exampleWalker\<bar> \<ge> 50" by metis
  from pickNewTarget_keeps_distance[of "exampleWalker\<lparr>containerWidth := 150\<rparr>" exampleElement "[9 / 10]" "1 / 2"] n v
  have "\<exists>c' e'. pickNewTarget [1 / 2, 9 / 10] (exampleWalker\<lparr>containerWidth := 150\<rparr>, exampleElement)
          = Some ((c', e'), [9 / 10]) \<and> targetX c' = 43" by simp
  then show ?thesis using w p d n by blast
qed

text \<open>
  C2 as stated fails at a span of exactly 100: the loop retries only while the span
  exceeds 100, so the draw 0.5 from position 70 gives the target 70, at distance 0.
\<close>

theorem pickNewTarget_distance_counterexample:
  "pickMaxX (exampleWalker\<lparr>containerWidth := 204, posX := 70\<rparr>) exampleElement - pickMinX = 100
   \<and> pickNewTarget [1 / 2] (exampleWalker\<lparr>containerWidth := 204, posX := 70\<rparr>, exampleElement)
       = Some ((exampleWalker\<lparr>containerWidth := 204, posX := 70, targetX := 70, direction := - 1\<rparr>,
                exampleElement\<lparr>classFacingLeft := True\<rparr>), [])
   \<and> \<not> \<bar>targetX (exampleWalker\<lparr>containerWidth := 204, posX := 70, targetX := 70, direction := - 1\<rparr>)
          - posX (exampleWalker\<lparr>containerWidth := 204, posX := 70\<rparr>)\<bar> \<ge> 50"
  by (simp add: example_defs tick_defs Let_def)

text \<open>
  C10, as amended. When the interval \<open>[20, containerWidth - petWidth - 20]\<close> is not
  empty and the draws are in \<open>[0, 1)\<close>, every target that \<open>pickNewTarget\<close> returns lies in
  it; the direction is +1 when the target is right of the current position and -1
  otherwise, which is the sign of \<open>target - current\<close> whenever the two differ; and the
  margin 20 is strictly inside the margin 10 of the tick clamp and of the drag clamp.
\<close>

theorem pickNewTarget_within_margin_20:
  assumes "pickNewTarget rs (c, e) = Some ((c', e'), rs')"
    and "\<forall>r \<in> set rs. 0 \<le> r \<and> r < 1"
    and "20 \<le> containerWidth c - petWidthOf e - 20"
  shows "20 \<le> targetX c' \<and> targetX c' \<le> containerWidth c - petWidthOf e - 20
       \<and> direction c' = (if targetX c' > posX c then 1 else - 1)
       \<and> (targetX c' \<noteq> posX c \<longrightarrow> real_of_int (direction c') = sgn (targetX c' - posX c))
       \<and> tickMargin < pickMinX \<and> dragMargin < pickMinX \<and> pickMaxX c e < tickMaxX c e"
proof -
  note t = pickNewTarget_target[OF assms(1)]
  have le: "pickMinX \<le> pickMaxX c e" using assms(3) by (simp add: pickMinX_def pickMaxX_def)
  from t have l: "pickLoop pickMinX (pickMaxX c e) (posX c) rs = Some (targetX c', rs')" by simp
  from pickLoop_range[OF l assms(2) le]
  have r: "20 \<le> targetX c' \<and> targetX c' \<le> containerWidth c - petWidthOf e - 20"
    by (simp add: pickMinX_def pickMaxX_def)
  have d: "direction c' = (if targetX c' > posX c then 1 else - 1)" using t by simp
  have s: "targetX c' \<noteq> posX c \<longrightarrow> real_of_int (direction c') = sgn (targetX c' - posX c)"
    using d by (auto simp: sgn_if)
  show ?thesis using r d s
    by (simp add: tickMargin_def pickMinX_def dragMargin_def pickMaxX_def tickMaxX_def)
qed

text \<open>The walking example, whose second draw gives the target 286.4 in \<open>[20, 316]\<close>.\<close>

theorem pickNewTarget_within_margin_20_witness:
  "pickNewTarget [1 / 4, 9 / 10] (exampleWalker, exampleElement)
       = Some ((exampleWalker\<lparr>targetX := 1432 / 5\<rparr>, exampleElement\<lparr>classFacingRight := True\<rparr>), [])
   \<and> (20 :: real) \<le> containerWidth exampleWalker - petWidthOf exampleElement - 20
   \<and> (20 :: real) \<le> 1432 / 5 \<and> (1432 / 5 :: real) \<le> 400 - 64 - 20
   \<and> direction (exampleWalker\<lparr>targetX := 1432 / 5\<rparr>) = 1"
proof -
  have p: "pickNewTarget [1 / 4, 9 / 10] (exampleWalker, exampleElement)
       = Some ((exampleWalker\<lparr>targetX := 1432 / 5\<rparr>, exampleElement\<lparr>classFacingRight := True\<rparr>), [])"
    by (simp add: example_defs tick_defs Let_def)
  have q: "\<forall>r \<in> set [1 / 4, 9 / 10 :: real]. 0 \<le> r \<and> r < 1" by simp
  have n: "(20 :: real) \<le> containerWidth exampleWalker - petWidthOf exampleElement - 20"
    by (simp add: example_defs petWidthOf_def)
  from pickNewTarget_within_margin_20[OF p q n]
  have "20 \<le> targetX (exampleWalker\<lparr>targetX := 1432 / 5\<rparr>)
      \<and> targetX (exampleWalker\<lparr>targetX := 1432 / 5\<rparr>) \<le> containerWidth exampleWalker - petWidthOf exampleElement - 20
      \<and> direction (exampleWalker\<lparr>targetX := 1432 / 5\<rparr>)
          = (if targetX (exampleWalker\<lparr>targetX := 1432 / 5\<rparr>) > posX exampleWalker then 1 else - 1)"
    by blast
  then have "(20 :: real) \<le> 1432 / 5 \<and> (1432 / 5 :: real) \<le> 400 - 64 - 20
      \<and> direction (exampleWalker\<lparr>targetX := 1432 / 5\<rparr>) = 1"
    by (simp add: example_defs petWidthOf_def)
  then show ?thesis using p n by blast
qed

text \<open>
  C10 as stated fails in a container of 100 with a 64 pixel element: the interval
  \<open>[20, 16]\<close> is empty and the draw 0 gives the target 20; from position 20 the
  direction is -1 while the sign of \<open>target - current\<close> is 0.
\<close>

theorem pickNewTarget_margin_counterexample:
  "pickNewTarget [0] (exampleWalker\<lparr>containerWidth := 100, posX := 20\<rparr>, exampleElement)
       = Some ((exampleWalker\<lparr>containerWidth := 100, posX := 20, targetX := 20, direction := - 1\<rparr>,
                exampleElement\<lparr>classFacingLeft := True\<rparr>), [])
   \<and> \<not> (20 \<le> targetX (exampleWalker\<lparr>containerWidth := 100, posX := 20, targetX := 20, direction := - 1\<rparr>)
        \<and> targetX (exampleWalker\<lparr>containerWidth := 100, posX := 20, targetX := 20, direction := - 1\<rparr>)
            \<le> containerWidth (exampleWalker\<lparr>containerWidth := 100, posX := 20\<rparr>) - petWidthOf exampleElement - 20)
   \<and> real_of_int (direction (exampleWalker\<lparr>containerWidth := 100, posX := 20, targetX := 20, direction := - 1\<rparr>))
        \<noteq> sgn (targetX (exampleWalker\<lparr>containerWidth := 100, posX := 20, targetX := 20, direction := - 1\<rparr>)
               - posX (exampleWalker\<lparr>containerWidth := 100, posX := 20\<rparr>))"
  by (simp add: example_defs tick_defs Let_def)

text \<open>
  C9. After \<open>updateDirection\<close> the element carries the flipped class \<open>facing-right\<close>
  exactly when the default facing disagrees with the walk direction (left with +1,
  right with -1), and the class \<open>facing-left\<close> exactly otherwise. A state refresh
  (\<open>updateState\<close>) ends with that recomputation for the new default facing, and a change of
  direction (\<open>pickNewTarget\<close>) with that recomputation for the new direction.
\<close>

theorem updateDirection_mirrors_iff_disagree:
  "classFacingRight (snd (updateDirection (c, e))) =
     ((defaultFacing c = FacingLeft \<and> direction c = 1) \<or>
      (defaultFacing c = FacingRight \<and> direction c = - 1))
   \<and> classFacingLeft (snd (updateDirection (c, e))) =
     (\<not> ((defaultFacing c = FacingLeft \<and> direction c = 1) \<or>
         (defaultFacing c = FacingRight \<and> direction c = - 1)))
   \<and> fst (updateDirection (c, e)) = c
   \<and> classFacingRight (snd (updateState gsf st (c, e))) =
       needsFlip (fst (updateState gsf st (c, e)))
   \<and> classFacingLeft (snd (updateState gsf st (c, e))) =
       (\<not> needsFlip (fst (updateState gsf st (c, e))))
   \<and> direction (fst (updateState gsf st (c, e))) = direction c
   \<and> defaultFacing (fst (updateState gsf st (c, e))) =
       (case psDefaultFacing st of None \<Rightarrow> FacingLeft | Some f \<Rightarrow> f)
   \<and> (\<forall>c' e' rs'. pickNewTarget rs (c, e) = Some ((c', e'), rs') \<longrightarrow>
         classFacingRight e' = needsFlip c' \<and> classFacingLeft e' = (\<not> needsFlip c'))"
proof -
  have a: "classFacingRight (snd (updateDirection (c, e))) =
     ((defaultFacing c = FacingLeft \<and> direction c = 1) \<or>
      (defaultFacing c = FacingRight \<and> direction c = - 1))
   \<and> classFacingLeft (snd (updateDirection (c, e))) =
     (\<not> ((defaultFacing c = FacingLeft \<and> direction c = 1) \<or>
         (defaultFacing c = FacingRight \<and> direction c = - 1)))
   \<and> fst (updateDirection (c, e)) = c"
    by (simp add: updateDirection_def needsFlip_def)
  have b: "classFacingRight (snd (updateState gsf st (c, e))) =
       needsFlip (fst (updateState gsf st (c, e)))
   \<and> classFacingLeft (snd (updateState gsf st (c, e))) =
       (\<not> needsFlip (fst (updateState gsf st (c, e))))
   \<and> direction (fst (updateState gsf st (c, e))) = direction c
   \<and> defaultFacing (fst (updateState gsf st (c, e))) =
       (case psDefaultFacing st of None \<Rightarrow> FacingLeft | Some f \<Rightarrow> f)"
    by (simp add: updateDirection_def updateState_def updateScale_def Let_def)
  have c: "\<forall>c' e' rs'. pickNewTarget rs (c, e) = Some ((c', e'), rs') \<longrightarrow>
         classFacingRight e' = needsFlip c' \<and> classFacingLeft e' = (\<not> needsFlip c')"
    using pickNewTarget_target by blast
  show ?thesis using a b c by blast
qed

text \<open>The four combinations, and a target selection that turns the walker round.\<close>

theorem updateDirection_mirrors_iff_disagree_witness:
  "classFacingRight (snd (updateDirection (exampleWalker, exampleElement)))
   \<and> \<not> classFacingLeft (snd (updateDirection (exampleWalker, exampleElement)))
   \<and> \<not> classFacingRight (snd (updateDirection (exampleWalker\<lparr>direction := - 1\<rparr>, exampleElement)))
   \<and> classFacingRight (snd (updateDirection
         (exampleWalker\<lparr>defaultFacing := FacingRight, direction := - 1\<rparr>, exampleElement)))
   \<and> \<not> classFacingRight (snd (updateDirection
         (exampleWalker\<lparr>defaultFacing := FacingRight\<rparr>, exampleElement)))
   \<and> pickNewTarget [1 / 10] (exampleWalker, exampleElement)
       = Some ((exampleWalker\<lparr>targetX := 248 / 5, direction := - 1\<rparr>,
                exampleElement\<lparr>classFacingLeft := True\<rparr>), [])
   \<and> \<not> needsFlip (exampleWalker\<lparr>targetX := 248 / 5, direction := - 1\<rparr>)"
proof -
  have p: "pickNewTarget [1 / 10] (exampleWalker, exampleElement)
       = Some ((exampleWalker\<lparr>targetX := 248 / 5, direction := - 1\<rparr>,
                exampleElement\<lparr>classFacingLeft := True\<rparr>), [])"
    by (simp add: example_defs tick_defs Let_def)
  have f: "\<not> classFacingRight (exampleElement\<lparr>classFacingLeft := True\<rparr>)"
    by (simp add: exampleElement_def)
  have n: "\<not> needsFlip (exampleWalker\<lparr>targetX := 248 / 5, direction := - 1\<rparr>)"
    using updateDirection_mirrors_iff_disagree[of exampleWalker exampleElement 1 examplePetState "[1 / 10]"] p f
    by blast
  have 1: "classFacingRight (snd (updateDirection (exampleWalker, exampleElement)))
       \<and> \<not> classFacingLeft (snd (updateDirection (exampleWalker, exampleElement)))"
    using updateDirection_mirrors_iff_disagree[of exampleWalker exampleElement 1 examplePetState "[]"]
    by (simp add: exampleWalker_def)
  have 2: "\<not> classFacingRight (snd (updateDirection (exampleWalker\<lparr>direction := - 1\<rparr>, exampleElement)))"
    using updateDirection_mirrors_iff_disagree[of "exampleWalker\<lparr>direction := - 1\<rparr>" exampleElement 1 examplePetState "[]"]
    by (simp add: exampleWalker_def)
  have 3: "classFacingRight (snd (updateDirection
         (exampleWalker\<lparr>defaultFacing := FacingRight, direction := - 1\<rparr>, exampleElement)))"
    using updateDirection_mirrors_iff_disagree[of "exampleWalker\<lparr>defaultFacing := FacingRight, direction := - 1\<rparr>" exampleElement 1 examplePetState "[]"]
    by (simp add: exampleWalker_def)
  have 4: "\<not> classFacingRight (snd (updateDirection
         (exampleWalker\<lparr>defaultFacing := FacingRight\<rparr>, exampleElement)))"
    using updateDirection_mirrors_iff_disagree[of "exampleWalker\<lparr>defaultFacing := FacingRight\<rparr>" exampleElement 1 examplePetState "[]"]
    by (simp add: exampleWalker_def)
  show ?thesis using 1 2 3 4 p n by blast
qed

section \<open>Facts about the interaction module\<close>

lemmas world_defs = exampleWorld_def exampleInteraction_def examplePage_def exampleManager_def

lemma toggle_hotkey_fields:
  "hotkeyPressedAt (im (toggleInteractionMode w)) = hotkeyPressedAt (im w)"
  "holdCheckTimer (im (toggleInteractionMode w)) = holdCheckTimer (im w)"
  "timers (toggleInteractionMode w) = timers w"
  "nextTimerId (toggleInteractionMode w) = nextTimerId w"
  "isInteractionMode (im (toggleInteractionMode w)) = (\<not> isInteractionMode (im w))"
  "modeLog (toggleInteractionMode w) = modeLog w @ [\<not> isInteractionMode (im w)]"
  by (simp_all add: toggleInteractionMode_def enterInteractionMode_def exitInteractionMode_def
        setVisible_def setIgnoreCursorEvents_def Let_def)

lemma advance_no_timers: "timers w = [] \<Longrightarrow> advance t w = w"
  by (simp add: advance_def)

lemma press_idle:
  assumes "hotkeyIdle w"
  shows "holdPending w t0 (onHotkeyPressed t0 (advance t0 w))"
  using assms
  by (simp add: hotkeyIdle_def advance_no_timers onHotkeyPressed_def holdPending_def Let_def)

lemma advance_pending_early:
  assumes "holdPending w0 t0 w" "t < t0 + HOLD_DURATION_MS"
  shows "advance t w = w"
  using assms by (simp add: holdPending_def advance_def)

lemma advance_pending_due:
  assumes "holdPending w0 t0 w" "t0 + HOLD_DURATION_MS \<le> t"
  shows "holdFired w0 t0 (advance t w)"
  using assms
  by (simp add: holdPending_def holdFired_def advance_def holdTimerFired_def clearTimeout_def
        toggle_hotkey_fields)

lemma advance_fired:
  assumes "holdFired w0 t0 w"
  shows "advance t w = w"
  using assms by (simp add: holdFired_def advance_no_timers)

lemma press_while_down:
  assumes "hotkeyPressedAt (im w) \<noteq> None"
  shows "onHotkeyPressed t w = w"
  using assms by (simp add: onHotkeyPressed_def)

lemma repeat_press_step:
  assumes "holdPending w0 t0 w \<or> holdFired w0 t0 w"
  shows "holdPending w0 t0 (handleHotkey t Pressed (advance t w))
       \<or> holdFired w0 t0 (handleHotkey t Pressed (advance t w))"
proof -
  have a: "holdPending w0 t0 (advance t w) \<or> holdFired w0 t0 (advance t w)"
  proof (cases "holdFired w0 t0 w")
    case True
    then show ?thesis by (simp add: advance_fired[OF True])
  next
    case False
    then have p: "holdPending w0 t0 w" using assms by blast
    show ?thesis
    proof (cases "t < t0 + HOLD_DURATION_MS")
      case True
      then show ?thesis using p advance_pending_early[OF p True] by simp
    next
      case False
      then show ?thesis using advance_pending_due[OF p] by simp
    qed
  qed
  then have "hotkeyPressedAt (im (advance t w)) \<noteq> None"
    by (auto simp: holdPending_def holdFired_def)
  then show ?thesis using a by (simp add: handleHotkey_def press_while_down)
qed

lemma repeat_presses:
  assumes "holdPending w0 t0 w \<or> holdFired w0 t0 w"
  shows "holdPending w0 t0 (runHotkeys (map (\<lambda>t. (t, Pressed)) ts) w)
       \<or> holdFired w0 t0 (runHotkeys (map (\<lambda>t. (t, Pressed)) ts) w)"
  using assms
proof (induction ts arbitrary: w)
  case Nil
  then show ?case by simp
next
  case (Cons t ts)
  from repeat_press_step[OF Cons.prems, of t]
  show ?case using Cons.IH by simp
qed

lemma early_presses:
  assumes "holdPending w0 t0 w" "\<forall>t \<in> set ts. t < t0 + HOLD_DURATION_MS"
  shows "runHotkeys (map (\<lambda>t. (t, Pressed)) ts) w = w"
  using assms
proof (induction ts)
  case Nil
  then show ?case by simp
next
  case (Cons t ts)
  have t: "t < t0 + HOLD_DURATION_MS" using Cons.prems(2) by simp
  have "hotkeyPressedAt (im w) \<noteq> None" using Cons.prems(1) by (simp add: holdPending_def)
  then have "handleHotkey t Pressed (advance t w) = w"
    by (simp add: advance_pending_early[OF Cons.prems(1) t] handleHotkey_def press_while_down)
  then show ?case using Cons by simp
qed

lemma runHotkeys_append: "runHotkeys (evs @ evs') w = runHotkeys evs' (runHotkeys evs w)"
  by (induction evs arbitrary: w) auto

lemma release_pending:
  assumes "holdPending w0 t0 w"
  shows "hotkeyIdle (onHotkeyReleased w) \<and> holdCheckTimer (im (onHotkeyReleased w)) = None
       \<and> isInteractionMode (im (onHotkeyReleased w)) = isInteractionMode (im w0)
       \<and> modeLog (onHotkeyReleased w) = modeLog w0"
  using assms
  by (simp add: holdPending_def onHotkeyReleased_def clearTimeout_def hotkeyIdle_def Let_def)

text \<open>
  The precondition of the two hotkey claims, that the key is up and no timer is pending,
  holds whenever the key is up in a state reached from such a state.
\<close>

lemma advance_consistent:
  assumes "hotkeyConsistent w"
  shows "hotkeyConsistent (advance t w)"
proof (cases "timers w")
  case Nil
  then show ?thesis using assms by (simp add: advance_def)
next
  case (Cons a rest)
  obtain handle due where a: "a = (handle, due)" by (cases a)
  have rest: "rest = []" using assms Cons by (auto simp: hotkeyConsistent_def split: option.splits)
  show ?thesis
  proof (cases "due \<le> t")
    case True
    have "timers (advance t w) = []"
      using True by (simp add: advance_def Cons a rest holdTimerFired_def clearTimeout_def
          toggle_hotkey_fields)
    then show ?thesis by (simp add: hotkeyConsistent_def)
  next
    case False
    then have "advance t w = w" by (simp add: advance_def Cons a rest)
    then show ?thesis using assms by simp
  qed
qed

lemma pressed_consistent:
  assumes "hotkeyConsistent w"
  shows "hotkeyConsistent (onHotkeyPressed t w)"
proof (cases "hotkeyPressedAt (im w) \<noteq> None")
  case True
  then show ?thesis using assms by (simp add: onHotkeyPressed_def)
next
  case False
  then have "timers w = []" using assms by (auto simp: hotkeyConsistent_def)
  then show ?thesis using False
    by (simp add: onHotkeyPressed_def hotkeyConsistent_def Let_def)
qed

lemma released_consistent:
  assumes "hotkeyConsistent w"
  shows "hotkeyIdle (onHotkeyReleased w)"
proof (cases "timers w = []")
  case True
  then show ?thesis
    by (auto simp: onHotkeyReleased_def hotkeyIdle_def clearTimeout_def Let_def split: option.splits)
next
  case False
  then obtain handle where h: "holdCheckTimer (im w) = Some handle" "handle \<noteq> 0"
    "map fst (timers w) = [handle]"
    using assms by (auto simp: hotkeyConsistent_def split: option.splits)
  from h(3) obtain due where "timers w = [(handle, due)]" by auto
  then show ?thesis using h
    by (simp add: onHotkeyReleased_def hotkeyIdle_def clearTimeout_def Let_def)
qed

lemma idle_consistent: "hotkeyIdle w \<Longrightarrow> hotkeyConsistent w"
  by (simp add: hotkeyIdle_def hotkeyConsistent_def)

lemma runHotkeys_consistent:
  assumes "hotkeyConsistent w"
  shows "hotkeyConsistent (runHotkeys evs w)"
  using assms
proof (induction evs arbitrary: w)
  case Nil
  then show ?case by simp
next
  case (Cons a evs)
  obtain t ev where a: "a = (t, ev)" by (cases a)
  have "hotkeyConsistent (handleHotkey t ev (advance t w))"
  proof (cases ev)
    case Pressed
    then show ?thesis
      using pressed_consistent[OF advance_consistent[OF Cons.prems]] by (simp add: handleHotkey_def)
  next
    case Released
    then show ?thesis
      using idle_consistent[OF released_consistent[OF advance_consistent[OF Cons.prems]]]
      by (simp add: handleHotkey_def)
  qed
  from Cons.IH[OF this] show ?case by (simp add: a)
qed

lemma key_up_is_idle:
  assumes "hotkeyIdle w0" and "hotkeyPressedAt (im (runHotkeys evs w0)) = None"
  shows "hotkeyIdle (runHotkeys evs w0)"
proof -
  have "hotkeyConsistent (runHotkeys evs w0)"
    by (rule runHotkeys_consistent[OF idle_consistent[OF assms(1)]])
  then show ?thesis using assms(2) by (auto simp: hotkeyConsistent_def hotkeyIdle_def)
qed

section \<open>Claims about the interaction module\<close>

text \<open>
  C4. From a state where the key is up and no hold timer is pending, a Pressed event at
  \<open>t0\<close> followed by any further Pressed events (key repeat) and no Released event
  toggles the mode exactly once by any time \<open>T\<close> at least 500 ms after \<open>t0\<close>: the mode
  is flipped, the log of toggles has grown by one entry, and no timer is left pending.
  The first Pressed event arms one timer, due at \<open>t0 + 500\<close>, and a Pressed event that
  arrives after it changes nothing.
\<close>

theorem held_hotkey_toggles_once:
  assumes "hotkeyIdle w" and "t0 + 500 \<le> T"
  shows "isInteractionMode (im (advance T (runHotkeys ((t0, Pressed) # map (\<lambda>t. (t, Pressed)) ts) w)))
           = (\<not> isInteractionMode (im w))
       \<and> modeLog (advance T (runHotkeys ((t0, Pressed) # map (\<lambda>t. (t, Pressed)) ts) w))
           = modeLog w @ [\<not> isInteractionMode (im w)]
       \<and> timers (advance T (runHotkeys ((t0, Pressed) # map (\<lambda>t. (t, Pressed)) ts) w)) = []
       \<and> timers (runHotkeys [(t0, Pressed)] w) = [(Suc (nextTimerId w), t0 + 500)]
       \<and> onHotkeyPressed t (runHotkeys [(t0, Pressed)] w) = runHotkeys [(t0, Pressed)] w"
proof -
  let ?w1 = "onHotkeyPressed t0 (advance t0 w)"
  let ?w2 = "runHotkeys (map (\<lambda>t. (t, Pressed)) ts) ?w1"
  have p1: "holdPending w t0 ?w1" by (rule press_idle[OF assms(1)])
  have run: "runHotkeys ((t0, Pressed) # map (\<lambda>t. (t, Pressed)) ts) w = ?w2"
    by (simp add: handleHotkey_def)
  have d: "holdPending w t0 ?w2 \<or> holdFired w t0 ?w2"
    using repeat_presses[of w t0 ?w1 ts] p1 by blast
  have due: "t0 + HOLD_DURATION_MS \<le> T" using assms(2) by (simp add: HOLD_DURATION_MS_def)
  have f: "holdFired w t0 (advance T ?w2)"
  proof (cases "holdFired w t0 ?w2")
    case True
    then show ?thesis by (simp add: advance_fired[OF True])
  next
    case False
    then have "holdPending w t0 ?w2" using d by blast
    from advance_pending_due[OF this due] show ?thesis .
  qed
  have one: "runHotkeys [(t0, Pressed)] w = ?w1" by (simp add: handleHotkey_def)
  have t1: "timers ?w1 = [(Suc (nextTimerId w), t0 + 500)]"
    using p1 by (simp add: holdPending_def HOLD_DURATION_MS_def)
  have "hotkeyPressedAt (im ?w1) \<noteq> None" using p1 by (simp add: holdPending_def)
  then have ign: "onHotkeyPressed t ?w1 = ?w1" by (rule press_while_down)
  show ?thesis
    unfolding run one using f t1 ign by (simp add: holdFired_def)
qed

text \<open>A press at 1000 ms with repeats at 1030, 1060 and 1600, observed at 2000.\<close>

theorem held_hotkey_toggles_once_witness:
  "hotkeyIdle exampleWorld
   \<and> \<not> isInteractionMode (im exampleWorld)
   \<and> isInteractionMode (im (advance 2000 (runHotkeys
         [(1000, Pressed), (1030, Pressed), (1060, Pressed), (1600, Pressed)] exampleWorld)))
   \<and> modeLog (advance 2000 (runHotkeys
         [(1000, Pressed), (1030, Pressed), (1060, Pressed), (1600, Pressed)] exampleWorld)) = [True]"
proof -
  have i: "hotkeyIdle exampleWorld" by (simp add: hotkeyIdle_def world_defs)
  have m: "\<not> isInteractionMode (im exampleWorld)" "modeLog exampleWorld = []"
    by (simp_all add: world_defs)
  have t: "(1000 :: real) + 500 \<le> 2000" by simp
  from held_hotkey_toggles_once[OF i t, of "[1030, 1060, 1600]" 0]
  show ?thesis using i m by simp
qed

text \<open>
  C5. From a state where the key is up and no hold timer is pending, a Pressed event at
  \<open>t0\<close>, any repeats of it, and a Released event, all before \<open>t0 + 500\<close>, leave the
  mode as it was at every later time \<open>T\<close>: the release cancels the pending timer and
  clears the pressed timestamp, so nothing is left to fire.
\<close>

theorem short_press_never_toggles:
  assumes "hotkeyIdle w" and "t1 < t0 + 500" and "\<forall>t \<in> set ts. t < t0 + 500"
  shows "isInteractionMode (im (advance T (runHotkeys
             ((t0, Pressed) # map (\<lambda>t. (t, Pressed)) ts @ [(t1, Released)]) w)))
           = isInteractionMode (im w)
       \<and> modeLog (advance T (runHotkeys
             ((t0, Pressed) # map (\<lambda>t. (t, Pressed)) ts @ [(t1, Released)]) w)) = modeLog w
       \<and> hotkeyPressedAt (im (advance T (runHotkeys
             ((t0, Pressed) # map (\<lambda>t. (t, Pressed)) ts @ [(t1, Released)]) w))) = None
       \<and> holdCheckTimer (im (advance T (runHotkeys
             ((t0, Pressed) # map (\<lambda>t. (t, Pressed)) ts @ [(t1, Released)]) w))) = None
       \<and> timers (advance T (runHotkeys
             ((t0, Pressed) # map (\<lambda>t. (t, Pressed)) ts @ [(t1, Released)]) w)) = []"
proof -
  let ?w1 = "onHotkeyPressed t0 (advance t0 w)"
  have p1: "holdPending w t0 ?w1" by (rule press_idle[OF assms(1)])
  have e: "\<forall>t \<in> set ts. t < t0 + HOLD_DURATION_MS" using assms(3) by (simp add: HOLD_DURATION_MS_def)
  have e1: "t1 < t0 + HOLD_DURATION_MS" using assms(2) by (simp add: HOLD_DURATION_MS_def)
  have run: "runHotkeys ((t0, Pressed) # map (\<lambda>t. (t, Pressed)) ts @ [(t1, Released)]) w
           = onHotkeyReleased ?w1"
    using early_presses[OF p1 e] advance_pending_early[OF p1 e1]
    by (simp add: runHotkeys_append handleHotkey_def)
  note r = release_pending[OF p1]
  have "timers (onHotkeyReleased ?w1) = []" using r by (simp add: hotkeyIdle_def)
  then have "advance T (onHotkeyReleased ?w1) = onHotkeyReleased ?w1" by (rule advance_no_timers)
  then show ?thesis unfolding run using r by (simp add: hotkeyIdle_def)
qed

text \<open>A press at 1000 ms with two repeats, released at 1400, observed at 5000.\<close>

theorem short_press_never_toggles_witness:
  "hotkeyIdle exampleWorld
   \<and> \<not> isInteractionMode (im exampleWorld)
   \<and> \<not> isInteractionMode (im (advance 5000 (runHotkeys
         [(1000, Pressed), (1030, Pressed), (1060, Pressed), (1400, Released)] exampleWorld)))
   \<and> modeLog (advance 5000 (runHotkeys
         [(1000, Pressed), (1030, Pressed), (1060, Pressed), (1400, Released)] exampleWorld)) = []
   \<and> timers (advance 5000 (runHotkeys
         [(1000, Pressed), (1030, Pressed), (1060, Pressed), (1400, Released)] exampleWorld)) = []"
proof -
  have i: "hotkeyIdle exampleWorld" by (simp add: hotkeyIdle_def world_defs)
  have m: "\<not> isInteractionMode (im exampleWorld)" "modeLog exampleWorld = []"
    by (simp_all add: world_defs)
  have t: "(1400 :: real) < 1000 + 500" by simp
  have b: "\<forall>t \<in> set [1030, 1060 :: real]. t < 1000 + 500" by simp
  from short_press_never_toggles[OF i t b, of 5000]
  show ?thesis using i m by simp
qed

text \<open>
  C3. While the window is resized by its left edge from an anchor width of 500, a pointer
  move of +150 (a width delta of -150) sets the width to the floor 400 and the x-origin
  to the anchor origin + 100, not + 150, so the right edge stays where it was.
\<close>

theorem left_resize_floors_width:
  assumes "\<not> (isDraggingPet (im w) \<and> draggingPetElement (im w) \<noteq> None)"
    and "\<not> isDragging (im w)"
    and "isResizing (im w)"
    and "resizeDirection (im w) = Some ResizeLeft"
    and "windowStartWidth (im w) = 500"
    and "screenX ev - dragStartX (im w) = 150"
  shows "winWidth (win (onMouseMove ev w)) = 400
       \<and> windowWidth (im (onMouseMove ev w)) = 400
       \<and> winX (win (onMouseMove ev w)) = windowStartX (im w) + 100
       \<and> winX (win (onMouseMove ev w)) \<noteq> windowStartX (im w) + 150
       \<and> winX (win (onMouseMove ev w)) + winWidth (win (onMouseMove ev w))
           = windowStartX (im w) + 500"
  using assms
  by (auto simp: onMouseMove_def setWindowWidthAndPosition_def setWindowPosition_def Let_def)

text \<open>
  The example window (width 500 at x = 200): a press on the left handle at screen x 1000
  and a move to 1150 give width 400 at x = 300.
\<close>

theorem left_resize_floors_width_witness:
  "isResizing (im (onMouseDown leftHandleDown exampleWorld))
   \<and> resizeDirection (im (onMouseDown leftHandleDown exampleWorld)) = Some ResizeLeft
   \<and> windowStartWidth (im (onMouseDown leftHandleDown exampleWorld)) = 500
   \<and> winX (win (onMouseDown leftHandleDown exampleWorld)) = 200
   \<and> winWidth (win (onMouseMove (leftHandleDown\<lparr>screenX := 1150\<rparr>)
                      (onMouseDown leftHandleDown exampleWorld))) = 400
   \<and> winX (win (onMouseMove (leftHandleDown\<lparr>screenX := 1150\<rparr>)
                  (onMouseDown leftHandleDown exampleWorld))) = 300"
proof -
  let ?w = "onMouseDown leftHandleDown exampleWorld"
  let ?ev = "leftHandleDown\<lparr>screenX := 1150\<rparr>"
  have im: "im ?w = exampleInteraction\<lparr>windowStartX := 200, windowStartY := 40,
               isResizing := True, resizeDirection := Some ResizeLeft,
               dragStartX := 1000, windowStartWidth := 500\<rparr>"
    by (simp add: onMouseDown_def leftHandleDown_def world_defs)
  have wn: "winX (win ?w) = 200"
    by (simp add: onMouseDown_def leftHandleDown_def world_defs)
  have h: "\<not> (isDraggingPet (im ?w) \<and> draggingPetElement (im ?w) \<noteq> None)"
    "\<not> isDragging (im ?w)" "isResizing (im ?w)" "resizeDirection (im ?w) = Some ResizeLeft"
    "windowStartWidth (im ?w) = 500" "screenX ?ev - dragStartX (im ?w) = 150"
    "windowStartX (im ?w) = 200"
    unfolding im by (simp_all add: exampleInteraction_def leftHandleDown_def)
  from left_resize_floors_width[OF h(1-6)] show ?thesis using h wn by simp
qed

text \<open>
  C8. While a pet is dragged, a pointer move changes one thing: the \<open>left\<close> of the dragged
  element, set to the anchor position plus the pointer delta clamped by
  \<open>max 10 (min (windowWidth - elementWidth - 10) _)\<close>. The manager, and so the position
  \<open>x\<close> of every controller, the module variables and the calls made to the position
  callback are as before. The pointer-up does not touch the manager either: it reports
  the element's final position through the callback, and \<open>syncPosition\<close>, the method that
  commits a dragged position, sets \<open>x\<close> to the element's position.
\<close>

theorem dragging_pet_moves_only_the_element:
  assumes "isDraggingPet (im w)" and "draggingPetElement (im w) = Some r"
  shows "heap (pg (onMouseMove ev w)) =
           (heap (pg w))(r := (heap (pg w) r)\<lparr>offsetLeft :=
              max 10 (min (windowWidth (im w) - offsetWidth (heap (pg w) r) - 10)
                          (petStartX (im w) + (clientX ev - dragStartX (im w))))\<rparr>)
       \<and> mgr (onMouseMove ev w) = mgr w
       \<and> map (\<lambda>(pid, c). (pid, posX c)) (controllers (mgr (onMouseMove ev w)))
           = map (\<lambda>(pid, c). (pid, posX c)) (controllers (mgr w))
       \<and> im (onMouseMove ev w) = im w
       \<and> petPositionCalls (onMouseMove ev w) = petPositionCalls w
       \<and> petPositionCalls (onMouseUp w) =
           petPositionCalls w @
             (if dataPetId (heap (pg w) r) \<noteq> [] \<and> onPetPositionChange (im w)
              then [(dataPetId (heap (pg w) r), offsetLeft (heap (pg w) r))] else [])
       \<and> mgr (onMouseUp w) = mgr w
       \<and> (\<forall>c e c' e' rs rs'. syncPosition rs (c, e) = Some ((c', e'), rs') \<longrightarrow> posX c' = offsetLeft e)"
proof -
  have mv: "onMouseMove ev w =
      w\<lparr>pg := (pg w)\<lparr>heap := (heap (pg w))(r := (heap (pg w) r)\<lparr>offsetLeft :=
              max 10 (min (windowWidth (im w) - offsetWidth (heap (pg w) r) - 10)
                          (petStartX (im w) + (clientX ev - dragStartX (im w))))\<rparr>)\<rparr>\<rparr>"
    using assms by (simp add: onMouseMove_def Let_def dragMargin_def)
  have up: "petPositionCalls (onMouseUp w) =
           petPositionCalls w @
             (if dataPetId (heap (pg w) r) \<noteq> [] \<and> onPetPositionChange (im w)
              then [(dataPetId (heap (pg w) r), offsetLeft (heap (pg w) r))] else [])"
       "mgr (onMouseUp w) = mgr w"
    using assms by (simp_all add: onMouseUp_def Let_def)
  have sy: "posX c' = offsetLeft e" if "syncPosition rs (c, e) = Some ((c', e'), rs')"
    for c e c' e' rs rs'
  proof (cases "\<not> isEgg (c\<lparr>posX := offsetLeft e\<rparr>) \<and> \<not> isResting (c\<lparr>posX := offsetLeft e\<rparr>)")
    case True
    then have "pickNewTarget rs (c\<lparr>posX := offsetLeft e\<rparr>, e) = Some ((c', e'), rs')"
      using that by (simp add: syncPosition_def Let_def)
    from pickNewTarget_frame[OF this] show ?thesis by simp
  next
    case False
    then have "c' = c\<lparr>posX := offsetLeft e\<rparr>"
      using that by (auto simp: syncPosition_def Let_def)
    then show ?thesis by simp
  qed
  show ?thesis unfolding mv using up sy by simp
qed

text \<open>
  The example of the claim: a pet at 50 in a window of width 300 with a 64 pixel element,
  dragged by +30, is shown at 80 while its controller still holds 50; committing 80
  redraws the target once (the draw 0.5 gives 118, only 38 away).
\<close>

theorem dragging_pet_moves_only_the_element_witness:
  "isDraggingPet (im (onMouseDown petDown narrowWorld))
   \<and> draggingPetElement (im (onMouseDown petDown narrowWorld)) = Some 0
   \<and> petStartX (im (onMouseDown petDown narrowWorld)) = 50
   \<and> offsetLeft (heap (pg (onMouseMove (petDown\<lparr>clientX := 100\<rparr>)
                            (onMouseDown petDown narrowWorld))) 0) = 80
   \<and> map (\<lambda>(pid, c). (pid, posX c))
         (controllers (mgr (onMouseMove (petDown\<lparr>clientX := 100\<rparr>)
                            (onMouseDown petDown narrowWorld)))) = [(''pet-1'', 50)]
   \<and> (\<exists>c' e'. syncPosition [1 / 2, 9 / 10]
            (exampleWalker\<lparr>containerWidth := 300, posX := 50\<rparr>, exampleElement\<lparr>offsetLeft := 80\<rparr>)
          = Some ((c', e'), []) \<and> posX c' = 80 \<and> targetX c' = 982 / 5)"
proof -
  have sy: "syncPosition [1 / 2, 9 / 10]
            (exampleWalker\<lparr>containerWidth := 300, posX := 50\<rparr>, exampleElement\<lparr>offsetLeft := 80\<rparr>)
          = Some ((exampleWalker\<lparr>containerWidth := 300, posX := 80, targetX := 982 / 5\<rparr>,
                   exampleElement\<lparr>offsetLeft := 80, classFacingRight := True\<rparr>), [])"
    by (simp add: syncPosition_def example_defs tick_defs Let_def)
  let ?w = "onMouseDown petDown narrowWorld"
  let ?ev = "petDown\<lparr>clientX := 100\<rparr>"
  have im: "im ?w = exampleInteraction\<lparr>windowWidth := 300, isDraggingPet := True,
               draggingPetElement := Some 0, dragStartX := 70, petStartX := 50\<rparr>"
    by (simp add: onMouseDown_def petDown_def narrowWorld_def world_defs exampleElement_def)
  have h: "isDraggingPet (im ?w)" "draggingPetElement (im ?w) = Some 0"
    "petStartX (im ?w) = 50" "dragStartX (im ?w) = 70" "windowWidth (im ?w) = 300"
    unfolding im by simp_all
  have e: "offsetWidth (heap (pg ?w) 0) = 64"
    by (simp add: onMouseDown_def petDown_def narrowWorld_def world_defs exampleElement_def)
  have m: "map (\<lambda>(pid, c). (pid, posX c)) (controllers (mgr ?w)) = [(''pet-1'', 50)]"
    by (simp add: onMouseDown_def petDown_def narrowWorld_def world_defs exampleWalker_def)
  from dragging_pet_moves_only_the_element[OF h(1,2), of ?ev]
  have "heap (pg (onMouseMove ?ev ?w)) 0 =
          (heap (pg ?w) 0)\<lparr>offsetLeft := max 10 (min (windowWidth (im ?w) - offsetWidth (heap (pg ?w) 0) - 10)
                          (petStartX (im ?w) + (clientX ?ev - dragStartX (im ?w))))\<rparr>"
     and k: "map (\<lambda>(pid, c). (pid, posX c)) (controllers (mgr (onMouseMove ?ev ?w)))
           = map (\<lambda>(pid, c). (pid, posX c)) (controllers (mgr ?w))"
    by simp_all
  then have "offsetLeft (heap (pg (onMouseMove ?ev ?w)) 0) = 80"
    using h e by (simp add: petDown_def)
  then show ?thesis using h k m sy by simp
qed

section \<open>Facts about \<open>MultiPetManager\<close>\<close>

lemma pickNewTarget_attrs:
  assumes "pickNewTarget rs (c, e) = Some ((c', e'), rs')"
  shows "snapshotAttributes c' = snapshotAttributes c"
proof -
  from pickNewTarget_shape[OF assms] obtain t where
    eq: "(c', e') = updateDirection (c\<lparr>targetX := t, direction := (if t > posX c then 1 else - 1)\<rparr>, e)"
    by blast
  have "c' = fst (updateDirection (c\<lparr>targetX := t, direction := (if t > posX c then 1 else - 1)\<rparr>, e))"
    using eq by (metis fst_conv)
  then show ?thesis by (simp add: updateDirection_fst snapshotAttributes_def)
qed

lemma startResting_attrs:
  assumes "startResting now rs (c, e) = Some ((c', e'), rs')"
  shows "snapshotAttributes c' = snapshotAttributes c"
  using startResting_shape[OF assms] by (auto simp: snapshotAttributes_def)

lemma restThenPick_attrs:
  assumes "restThenPick now rs (c, e) = Some ((c', e'), rs')"
  shows "snapshotAttributes c' = snapshotAttributes c"
proof (cases "startResting now rs (c, e)")
  case None
  then show ?thesis using assms by (simp add: restThenPick_def)
next
  case (Some a)
  obtain c1 e1 rs1 where a: "a = ((c1, e1), rs1)" by (cases a) auto
  have b: "pickNewTarget rs1 (c1, e1) = Some ((c', e'), rs')"
    using assms Some by (simp add: restThenPick_def a)
  show ?thesis using startResting_attrs[OF Some[unfolded a]] pickNewTarget_attrs[OF b] by simp
qed

lemma boundaryCheck_attrs:
  assumes "boundaryCheck now rs (c1, e) = Some ((c2, e2), rs2)"
  shows "snapshotAttributes c2 = snapshotAttributes c1"
proof -
  consider (lo) "posX c1 \<le> tickMargin"
    | (hi) "\<not> posX c1 \<le> tickMargin" "posX c1 \<ge> tickMaxX c1 e"
    | (mid) "\<not> posX c1 \<le> tickMargin" "\<not> posX c1 \<ge> tickMaxX c1 e"
    by blast
  then show ?thesis
  proof cases
    case lo
    then have "restThenPick now rs (c1\<lparr>posX := tickMargin\<rparr>, e) = Some ((c2, e2), rs2)"
      using assms by (simp add: boundaryCheck_def Let_def)
    from restThenPick_attrs[OF this] show ?thesis by (simp add: snapshotAttributes_def)
  next
    case hi
    then have "restThenPick now rs (c1\<lparr>posX := tickMaxX c1 e\<rparr>, e) = Some ((c2, e2), rs2)"
      using assms by (simp add: boundaryCheck_def Let_def tickMaxX_def)
    from restThenPick_attrs[OF this] show ?thesis by (simp add: snapshotAttributes_def)
  next
    case mid
    then show ?thesis using assms by (simp add: boundaryCheck_def Let_def tickMaxX_def)
  qed
qed

lemma arrivalCheck_attrs:
  assumes "arrivalCheck now sp rs (c2, e2) = Some ((c3, e3), rs3)"
  shows "snapshotAttributes c3 = snapshotAttributes c2"
  using assms startResting_attrs
  by (auto simp: arrivalCheck_def Let_def split: if_splits)

lemma moveStep_attrs:
  assumes "moveStep now rs (c, e) = Some ((c', e'), rs')"
  shows "snapshotAttributes c' = snapshotAttributes c"
proof -
  let ?sp = "baseSpeed c * speedMultiplier c"
  let ?c1 = "c\<lparr>posX := posX c + ?sp * real_of_int (direction c)\<rparr>"
  obtain c2 e2 rs2 c3 e3 where
    b: "boundaryCheck now rs (?c1, e) = Some ((c2, e2), rs2)" and
    a: "arrivalCheck now ?sp rs2 (c2, e2) = Some ((c3, e3), rs')" and
    u: "(c', e') = updatePosition (c3, e3)"
    using assms by (auto simp: moveStep_def Let_def split: option.splits)
  have "c' = c3" using u by (simp add: updatePosition_def)
  then show ?thesis
    using boundaryCheck_attrs[OF b] arrivalCheck_attrs[OF a] by (simp add: snapshotAttributes_def)
qed

lemma animate_attrs:
  assumes "animate now fid rs (c, e) = Some ((c', e'), rs')"
  shows "snapshotAttributes c' = snapshotAttributes c"
proof -
  consider (egg) "isEgg c"
    | (off) "\<not> isEgg c" "\<not> (\<not> isPaused c \<and> isMovementEnabled c)"
    | (rest) "\<not> isEgg c" "\<not> isPaused c \<and> isMovementEnabled c" "isResting c" "\<not> now \<ge> restEndTime c"
    | (wake) "\<not> isEgg c" "\<not> isPaused c \<and> isMovementEnabled c" "isResting c" "now \<ge> restEndTime c"
    | (move) "\<not> isEgg c" "\<not> isPaused c \<and> isMovementEnabled c" "\<not> isResting c"
    by blast
  then show ?thesis
  proof cases
    case egg
    then show ?thesis using assms by (auto simp: animate_def snapshotAttributes_def)
  next
    case off
    then show ?thesis using assms by (auto simp: animate_def Let_def snapshotAttributes_def)
  next
    case rest
    then show ?thesis using assms by (auto simp: animate_def Let_def snapshotAttributes_def)
  next
    case wake
    then obtain c1 e1 where
      p: "pickNewTarget rs (c\<lparr>isResting := False\<rparr>, e) = Some ((c1, e1), rs')"
      and c': "c' = c1\<lparr>animationFrameId := Some fid\<rparr>"
      using assms by (auto simp: animate_def Let_def split: option.splits)
    from pickNewTarget_attrs[OF p] show ?thesis using c' by (simp add: snapshotAttributes_def)
  next
    case move
    then obtain c1 e1 where
      p: "moveStep now rs (c, e) = Some ((c1, e1), rs')"
      and c': "c' = c1\<lparr>animationFrameId := Some fid\<rparr>"
      using assms by (auto simp: animate_def Let_def split: option.splits)
    from moveStep_attrs[OF p] show ?thesis using c' by (simp add: snapshotAttributes_def)
  qed
qed

lemma start_attrs:
  assumes "start now fid rs (c, e) = Some ((c', e'), rs')"
  shows "snapshotAttributes c' = snapshotAttributes c"
proof (cases "animationFrameId c \<noteq> None")
  case True
  then show ?thesis using assms by (auto simp: start_def)
next
  case False
  then have "animate now fid rs (c, e\<lparr>classWalking := True\<rparr>) = Some ((c', e'), rs')"
    using assms by (simp add: start_def)
  from animate_attrs[OF this] show ?thesis .
qed

lemma updateState_attrs:
  "snapshotAttributes (fst (updateState gsf st ce)) = petAttributes st"
  by (cases ce)
     (simp add: updateState_def updateScale_def updateDirection_fst Let_def
        snapshotAttributes_def petAttributes_def)

lemma applySettings_attrs:
  "snapshotAttributes (fst (applySettings getter pid ce)) = snapshotAttributes (fst ce)"
proof (cases getter)
  case None
  then show ?thesis by (simp add: applySettings_def)
next
  case (Some g)
  obtain c e where ce: "ce = (c, e)" by (cases ce)
  show ?thesis
    by (simp add: applySettings_def Some ce setMovementEnabled_def setSpeed_def Let_def
          snapshotAttributes_def split: prod.splits)
qed

lemma registryAttributes_dom: "dom (registryAttributes m) = registryIds m"
proof -
  have "dom (registryAttributes m) = dom (map_of (controllers m))"
    by (auto simp: registryAttributes_def dom_def)
  then show ?thesis by (simp add: registryIds_def dom_map_of_conv_image_fst)
qed

lemma removePet_attrs:
  "registryAttributes (fst (removePet pid mp)) = (registryAttributes (fst mp))(pid := None)"
proof (cases mp)
  case (Pair m p)
  show ?thesis
  proof (cases "map_of (controllers m) pid")
    case None
    then show ?thesis
      by (auto simp: Pair removePet_def registryAttributes_def)
  next
    case (Some c)
    then show ?thesis
      by (auto simp: Pair removePet_def registryAttributes_def AList.delete_conv' split: prod.splits)
  qed
qed

lemma removeAbsent_attrs:
  "registryAttributes (fst (removeAbsent cur new mp)) pid =
     (if pid \<in> set cur \<and> pid \<notin> set new then None else registryAttributes (fst mp) pid)"
proof (induction cur arbitrary: mp)
  case Nil
  then show ?case by simp
next
  case (Cons k cur)
  show ?case
  proof (cases "k \<notin> set new")
    case True
    then show ?thesis using Cons[of "removePet k mp"] by (simp add: removePet_attrs)
  next
    case False
    then show ?thesis using Cons[of mp] by auto
  qed
qed

lemma refreshPet_attrs:
  assumes "map_of (controllers (fst mp)) (odangoId st) \<noteq> None"
  shows "registryAttributes (fst (refreshPet st mp)) =
           (registryAttributes (fst mp))(odangoId st \<mapsto> petAttributes st)"
proof (cases mp)
  case (Pair m p)
  from assms obtain c where c: "map_of (controllers m) (odangoId st) = Some c"
    by (auto simp: Pair)
  obtain c' e' where u: "updateState (globalScreenScaleFactor p) st (c, heap p (elementRef c)) = (c', e')"
    by (cases "updateState (globalScreenScaleFactor p) st (c, heap p (elementRef c))")
  have "snapshotAttributes c' = petAttributes st"
    using updateState_attrs[of "globalScreenScaleFactor p" st "(c, heap p (elementRef c))"] u by simp
  then show ?thesis
    by (auto simp: Pair refreshPet_def c u registryAttributes_def AList.update_conv')
qed

lemma addPet_attrs:
  assumes "addPet now rs st mp = Some (mp', rs')"
  shows "registryAttributes (fst mp') = (registryAttributes (fst mp))(odangoId st \<mapsto> petAttributes st)"
proof (cases mp)
  case (Pair m p)
  let ?e0 = "createPetElement (odangoId st) p"
  obtain ce1 rs1 where
    n: "newPetController (nextRef p) (mgrContainerWidth m) None rs ?e0 = Some (ce1, rs1)"
    using assms by (auto simp: Pair addPet_def Let_def split: option.splits)
  let ?ce3 = "applySettings (petSettingsGetter m) (odangoId st)
                (updateState (globalScreenScaleFactor p) st ce1)"
  obtain c4 e4 where
    s: "start now (nextFrame p) rs1 ?ce3 = Some ((c4, e4), rs')" and
    m': "fst mp' = m\<lparr>controllers := AList.update (odangoId st) c4 (controllers m)\<rparr>"
    using assms n by (auto simp: Pair addPet_def Let_def split: option.splits)
  have "snapshotAttributes c4 = snapshotAttributes (fst ?ce3)"
    using start_attrs[of now "nextFrame p" rs1 "fst ?ce3" "snd ?ce3" c4 e4 rs'] s by simp
  then have "snapshotAttributes c4 = petAttributes st"
    by (simp add: applySettings_attrs updateState_attrs)
  then show ?thesis
    by (auto simp: Pair m' registryAttributes_def AList.update_conv')
qed

lemma addOrUpdate_attrs:
  assumes "addOrUpdate now sts rs mp = Some (mp', rs')"
  shows "registryAttributes (fst mp') = overwriteAll sts (registryAttributes (fst mp))"
  using assms
proof (induction sts arbitrary: rs mp)
  case Nil
  then show ?case by simp
next
  case (Cons st sts)
  have "\<exists>mp1 rs1. addOrUpdate now sts rs1 mp1 = Some (mp', rs')
          \<and> registryAttributes (fst mp1)
              = (registryAttributes (fst mp))(odangoId st \<mapsto> petAttributes st)"
  proof (cases "map_of (controllers (fst mp)) (odangoId st) \<noteq> None")
    case True
    then have "addOrUpdate now sts rs (refreshPet st mp) = Some (mp', rs')"
      using Cons.prems by simp
    then show ?thesis using refreshPet_attrs[OF True] by blast
  next
    case False
    then obtain mp1 rs1 where
      a: "addPet now rs st mp = Some (mp1, rs1)" and
      r: "addOrUpdate now sts rs1 mp1 = Some (mp', rs')"
      using Cons.prems by (auto split: option.splits)
    show ?thesis using r addPet_attrs[OF a] by blast
  qed
  then obtain mp1 rs1 where
    r: "addOrUpdate now sts rs1 mp1 = Some (mp', rs')" and
    e: "registryAttributes (fst mp1) = (registryAttributes (fst mp))(odangoId st \<mapsto> petAttributes st)"
    by blast
  have "registryAttributes (fst mp') = overwriteAll sts (registryAttributes (fst mp1))"
    by (rule Cons.IH[OF r])
  also have "\<dots> = overwriteAll (st # sts) (registryAttributes (fst mp))"
    by (simp only: e overwriteAll.simps)
  finally show ?case .
qed

lemma overwriteAll_dom: "dom (overwriteAll sts a) = dom a \<union> odangoId ` set sts"
  by (induction sts arbitrary: a) auto

lemma addOrUpdate_present:
  assumes "odangoId ` set sts \<subseteq> dom (registryAttributes (fst mp))"
  shows "\<exists>mp'. addOrUpdate now sts rs mp = Some (mp', rs)"
  using assms
proof (induction sts arbitrary: mp)
  case Nil
  then show ?case by simp
next
  case (Cons st sts)
  have p: "map_of (controllers (fst mp)) (odangoId st) \<noteq> None"
    using Cons.prems by (auto simp: registryAttributes_def domIff)
  have "dom (registryAttributes (fst (refreshPet st mp))) = dom (registryAttributes (fst mp)) \<union> {odangoId st}"
    by (simp add: refreshPet_attrs[OF p])
  then have "odangoId ` set sts \<subseteq> dom (registryAttributes (fst (refreshPet st mp)))"
    using Cons.prems by auto
  from Cons.IH[OF this] show ?case using p by simp
qed

lemma overwriteAll_absorb_in:
  "k \<in> odangoId ` set sts \<Longrightarrow> overwriteAll sts (a(k \<mapsto> v)) = overwriteAll sts a"
proof (induction sts arbitrary: a)
  case Nil
  then show ?case by simp
next
  case (Cons st sts)
  show ?case
  proof (cases "odangoId st = k")
    case True
    have "overwriteAll (st # sts) (a(k \<mapsto> v)) = overwriteAll sts (a(k \<mapsto> v, k \<mapsto> petAttributes st))"
      by (simp only: overwriteAll.simps True)
    also have "\<dots> = overwriteAll sts (a(k \<mapsto> petAttributes st))"
      by (simp only: fun_upd_upd)
    also have "\<dots> = overwriteAll (st # sts) a"
      by (simp only: overwriteAll.simps True)
    finally show ?thesis .
  next
    case False
    then have k: "k \<in> odangoId ` set sts" using Cons.prems by auto
    have tw: "a(k \<mapsto> v, odangoId st \<mapsto> petAttributes st) = a(odangoId st \<mapsto> petAttributes st, k \<mapsto> v)"
      using False by (metis fun_upd_twist)
    have "overwriteAll (st # sts) (a(k \<mapsto> v)) = overwriteAll sts (a(odangoId st \<mapsto> petAttributes st, k \<mapsto> v))"
      by (simp only: overwriteAll.simps tw)
    also have "\<dots> = overwriteAll sts (a(odangoId st \<mapsto> petAttributes st))"
      by (rule Cons.IH[OF k])
    also have "\<dots> = overwriteAll (st # sts) a"
      by (simp only: overwriteAll.simps)
    finally show ?thesis .
  qed
qed

lemma overwriteAll_absorb_out:
  "k \<notin> odangoId ` set sts \<Longrightarrow> overwriteAll sts (a(k \<mapsto> v)) = (overwriteAll sts a)(k \<mapsto> v)"
proof (induction sts arbitrary: a)
  case Nil
  then show ?case by simp
next
  case (Cons st sts)
  have ne: "odangoId st \<noteq> k" and k: "k \<notin> odangoId ` set sts" using Cons.prems by auto
  have tw: "a(k \<mapsto> v, odangoId st \<mapsto> petAttributes st) = a(odangoId st \<mapsto> petAttributes st, k \<mapsto> v)"
    using ne by (metis fun_upd_twist)
  have "overwriteAll (st # sts) (a(k \<mapsto> v)) = overwriteAll sts (a(odangoId st \<mapsto> petAttributes st, k \<mapsto> v))"
    by (simp only: overwriteAll.simps tw)
  also have "\<dots> = (overwriteAll sts (a(odangoId st \<mapsto> petAttributes st)))(k \<mapsto> v)"
    by (rule Cons.IH[OF k])
  also have "\<dots> = (overwriteAll (st # sts) a)(k \<mapsto> v)"
    by (simp only: overwriteAll.simps)
  finally show ?case .
qed

lemma overwriteAll_fixed: "overwriteAll sts (overwriteAll sts a) = overwriteAll sts a"
proof (induction sts arbitrary: a)
  case Nil
  then show ?case by simp
next
  case (Cons st sts)
  let ?k = "odangoId st"
  let ?v = "petAttributes st"
  let ?b = "a(?k \<mapsto> ?v)"
  have "overwriteAll (st # sts) (overwriteAll (st # sts) a)
          = overwriteAll sts ((overwriteAll sts ?b)(?k \<mapsto> ?v))"
    by (simp only: overwriteAll.simps)
  also have "\<dots> = overwriteAll sts (overwriteAll sts ?b)"
  proof (cases "?k \<in> odangoId ` set sts")
    case True
    then show ?thesis by (rule overwriteAll_absorb_in)
  next
    case False
    have "overwriteAll sts ?b = (overwriteAll sts a)(?k \<mapsto> ?v)"
      by (rule overwriteAll_absorb_out[OF False])
    then have "(overwriteAll sts ?b)(?k \<mapsto> ?v) = overwriteAll sts ?b"
      by (simp only: fun_upd_upd)
    then show ?thesis by (simp only:)
  qed
  also have "\<dots> = overwriteAll sts ?b" by (rule Cons.IH)
  also have "\<dots> = overwriteAll (st # sts) a" by (simp only: overwriteAll.simps)
  finally show ?case .
qed

lemmas manager_defs = updatePets_def addOrUpdate.simps removeAbsent.simps refreshPet_def addPet_def
  removePet_def applySettings_def createPetElement_def newPetController_def constructFrom_def
  fieldDefaults_def start_def stop_def updateState_def updateScale_def setSpeed_def
  setMovementEnabled_def SPEED_DEFAULT_def BASE_PET_SIZE_def BASE_DISPLAY_MULTIPLIER_def
  twoPets_def examplePetState_def

lemma updatePets_example_run:
  "map_option (\<lambda>r. (controllers (fst (fst r)), snd r))
     (updatePets 0 twoPets [1 / 2, 3 / 10, 1 / 2, 9 / 10] (exampleManager, examplePage))
   = Some ([(''pet-1'', exampleWalker\<lparr>containerWidth := 500, posX := 50, scale := 1,
                 defaultFacing := FacingRight\<rparr>),
            (''pet-2'', (fieldDefaults 1 500)\<lparr>posX := 250, direction := 1, speedMultiplier := 1,
                 targetX := 1882 / 5, petId := ''pet-2'', spritePath := ''egg.gif'',
                 animationFrameId := Some 1\<rparr>)], [])"
  by (simp add: manager_defs world_defs example_defs tick_defs Let_def AList.update.simps)

text \<open>\<open>updatePets\<close> returns when it is given enough draws.\<close>

lemma addPet_suffice: "drawsSuffice (\<lambda>rs. addPet now rs st mp)"
proof -
  obtain m p where mp: "mp = (m, p)" by (cases mp)
  let ?e0 = "createPetElement (odangoId st) p"
  from newPetController_suffice[of "nextRef p" "mgrContainerWidth m" None ?e0] obtain pre1 ce1 where
    p1: "\<forall>r \<in> set pre1. 0 \<le> r \<and> r < 1" and
    f1: "\<And>rest. newPetController (nextRef p) (mgrContainerWidth m) None (pre1 @ rest) ?e0 = Some (ce1, rest)"
    unfolding drawsSuffice_def by blast
  let ?ce3 = "applySettings (petSettingsGetter m) (odangoId st)
                (updateState (globalScreenScaleFactor p) st ce1)"
  from start_suffice[of now "nextFrame p" ?ce3] obtain pre2 ce4 where
    p2: "\<forall>r \<in> set pre2. 0 \<le> r \<and> r < 1" and
    f2: "\<And>rest. start now (nextFrame p) (pre2 @ rest) ?ce3 = Some (ce4, rest)"
    unfolding drawsSuffice_def by blast
  obtain c4 e4 where ce4: "ce4 = (c4, e4)" by (cases ce4)
  have "\<forall>rest. addPet now ((pre1 @ pre2) @ rest) st mp
          = Some ((m\<lparr>controllers := AList.update (odangoId st) c4 (controllers m)\<rparr>,
                   p\<lparr>heap := (heap p)(nextRef p := e4), nextRef := Suc (nextRef p),
                     nextFrame := Suc (nextFrame p)\<rparr>), rest)"
    using f1[of "pre2 @ _"] f2 by (simp add: addPet_def mp Let_def ce4)
  moreover have "\<forall>r \<in> set (pre1 @ pre2). 0 \<le> r \<and> r < 1" using p1 p2 by auto
  ultimately show ?thesis unfolding drawsSuffice_def by blast
qed

lemma addOrUpdate_suffice: "drawsSuffice (\<lambda>rs. addOrUpdate now sts rs mp)"
proof (induction sts arbitrary: mp)
  case Nil
  show ?case by (simp add: drawsSuffice_return)
next
  case (Cons st sts)
  let ?step = "\<lambda>rs. if map_of (controllers (fst mp)) (odangoId st) \<noteq> None
                     then Some (refreshPet st mp, rs) else addPet now rs st mp"
  have "drawsSuffice ?step"
    by (intro drawsSuffice_if drawsSuffice_return addPet_suffice)
  from drawsSuffice_bind[OF this, of "\<lambda>mp' rs'. addOrUpdate now sts rs' mp'"] Cons.IH
  show ?case by simp
qed

lemma updatePets_suffice: "drawsSuffice (\<lambda>rs. updatePets now pets rs mp)"
  unfolding updatePets_def Let_def by (rule addOrUpdate_suffice)

section \<open>Claims about \<open>MultiPetManager\<close>\<close>

text \<open>
  C6. When \<open>updatePets\<close> has returned for a snapshot, running it again with the same
  snapshot (at any time, with any draws) returns without consuming a draw, and the
  registry has the same ids and every controller the same snapshot attributes (id, scale,
  sprite path, stage, default facing) as after the first run.
\<close>

theorem updatePets_idempotent:
  assumes "updatePets now pets rs mp = Some (mp1, rs1)"
  shows "\<exists>mp2. updatePets now' pets rs' mp1 = Some (mp2, rs')
           \<and> registryIds (fst mp2) = registryIds (fst mp1)
           \<and> (\<forall>pid. map_option snapshotAttributes (map_of (controllers (fst mp2)) pid)
                    = map_option snapshotAttributes (map_of (controllers (fst mp1)) pid))"
proof -
  let ?new = "map odangoId pets"
  let ?mp0 = "removeAbsent (map fst (controllers (fst mp))) ?new mp"
  let ?a0 = "registryAttributes (fst ?mp0)"
  have run1: "addOrUpdate now pets rs ?mp0 = Some (mp1, rs1)"
    using assms by (simp add: updatePets_def Let_def)
  have a1: "registryAttributes (fst mp1) = overwriteAll pets ?a0"
    by (rule addOrUpdate_attrs[OF run1])
  have d0: "dom ?a0 \<subseteq> set ?new"
  proof
    fix k assume "k \<in> dom ?a0"
    then have k: "registryAttributes (fst ?mp0) k \<noteq> None" by (simp add: domIff)
    then have "registryAttributes (fst mp) k \<noteq> None"
      by (simp add: removeAbsent_attrs split: if_splits)
    then have "k \<in> set (map fst (controllers (fst mp)))"
      using registryAttributes_dom[of "fst mp"] by (auto simp: registryIds_def domIff)
    then show "k \<in> set ?new" using k by (simp add: removeAbsent_attrs split: if_splits)
  qed
  have d1: "dom (registryAttributes (fst mp1)) = set ?new"
    using d0 by (auto simp: a1 overwriteAll_dom)
  let ?mp1' = "removeAbsent (map fst (controllers (fst mp1))) ?new mp1"
  have keep: "registryAttributes (fst ?mp1') = registryAttributes (fst mp1)"
  proof
    fix k
    show "registryAttributes (fst ?mp1') k = registryAttributes (fst mp1) k"
    proof (cases "k \<in> set ?new")
      case True
      then show ?thesis by (simp add: removeAbsent_attrs)
    next
      case False
      then have "registryAttributes (fst mp1) k = None" using d1 by (auto simp: domIff)
      then show ?thesis by (simp add: removeAbsent_attrs)
    qed
  qed
  have "odangoId ` set pets \<subseteq> dom (registryAttributes (fst ?mp1'))"
    using d1 by (simp add: keep)
  from addOrUpdate_present[OF this, of now' rs'] obtain mp2 where
    run2: "addOrUpdate now' pets rs' ?mp1' = Some (mp2, rs')" by blast
  have a2: "registryAttributes (fst mp2) = registryAttributes (fst mp1)"
    using addOrUpdate_attrs[OF run2] by (simp add: keep a1 overwriteAll_fixed)
  have ids: "registryIds (fst mp2) = registryIds (fst mp1)"
    using a2 registryAttributes_dom by metis
  have "updatePets now' pets rs' mp1 = Some (mp2, rs')"
    using run2 by (simp add: updatePets_def Let_def)
  moreover have "\<forall>pid. map_option snapshotAttributes (map_of (controllers (fst mp2)) pid)
                    = map_option snapshotAttributes (map_of (controllers (fst mp1)) pid)"
    using a2 by (simp add: registryAttributes_def fun_eq_iff)
  ultimately show ?thesis using ids by blast
qed

text \<open>
  A snapshot that names \<open>pet-1\<close> twice and the new egg \<open>pet-2\<close> once: the first run adds
  \<open>pet-2\<close> with four draws, the second run changes neither the ids nor the attributes.
\<close>

theorem updatePets_idempotent_witness:
  "\<exists>mp1 mp2. updatePets 0 twoPets [1 / 2, 3 / 10, 1 / 2, 9 / 10] (exampleManager, examplePage) = Some (mp1, [])
     \<and> updatePets 16 twoPets [] mp1 = Some (mp2, [])
     \<and> registryIds (fst mp1) = {''pet-1'', ''pet-2''}
     \<and> registryIds (fst mp2) = {''pet-1'', ''pet-2''}
     \<and> map_option snapshotAttributes (map_of (controllers (fst mp2)) ''pet-1'')
         = Some (''pet-1'', 1, ''charmander/stage1.gif'', ''stage1'', FacingRight)
     \<and> map_option snapshotAttributes (map_of (controllers (fst mp2)) ''pet-2'')
         = Some (''pet-2'', 1, ''egg.gif'', ''egg'', FacingLeft)"
proof -
  from updatePets_example_run obtain mp1 where
    r1: "updatePets 0 twoPets [1 / 2, 3 / 10, 1 / 2, 9 / 10] (exampleManager, examplePage) = Some (mp1, [])"
    and c1: "controllers (fst mp1) =
           [(''pet-1'', exampleWalker\<lparr>containerWidth := 500, posX := 50, scale := 1,
                 defaultFacing := FacingRight\<rparr>),
            (''pet-2'', (fieldDefaults 1 500)\<lparr>posX := 250, direction := 1, speedMultiplier := 1,
                 targetX := 1882 / 5, petId := ''pet-2'', spritePath := ''egg.gif'',
                 animationFrameId := Some 1\<rparr>)]"
    by auto
  from updatePets_idempotent[OF r1, of 16 "[]"] obtain mp2 where
    r2: "updatePets 16 twoPets [] mp1 = Some (mp2, [])" and
    ids: "registryIds (fst mp2) = registryIds (fst mp1)" and
    at: "\<And>pid. map_option snapshotAttributes (map_of (controllers (fst mp2)) pid)
                    = map_option snapshotAttributes (map_of (controllers (fst mp1)) pid)"
    by blast
  have i1: "registryIds (fst mp1) = {''pet-1'', ''pet-2''}"
    by (simp add: registryIds_def c1)
  have a1: "map_option snapshotAttributes (map_of (controllers (fst mp1)) ''pet-1'')
         = Some (''pet-1'', 1, ''charmander/stage1.gif'', ''stage1'', FacingRight)"
    by (simp add: c1 snapshotAttributes_def exampleWalker_def)
  have a2: "map_option snapshotAttributes (map_of (controllers (fst mp1)) ''pet-2'')
         = Some (''pet-2'', 1, ''egg.gif'', ''egg'', FacingLeft)"
    by (simp add: c1 snapshotAttributes_def fieldDefaults_def)
  show ?thesis using r1 r2 ids i1 at[of "''pet-1''"] at[of "''pet-2''"] a1 a2 by metis
qed

end
